theory Spec2Isabelle
  imports Main "HOL-Library.Word" "HOL-Library.Signed_Division" "HOL-Library.Multiset"
    "HOL-Library.Monad_Syntax"
begin

unbundle bit_operations_syntax

section \<open>C library text routines used by cpu\_info.c\<close>

text \<open>
  Text is a list of bytes (\<open>char\<close>) without the terminating NUL. A value of C type
  \<open>int\<close> is the integer it denotes, between \<open>- 2 ^ 31\<close> and \<open>2 ^ 31 - 1\<close>. Signed
  overflow of \<open>*\<close> and \<open>++\<close> is undefined behaviour in C, so theorems about arithmetic on
  parsed values state the range in which the C computation is defined.
\<close>

definition isdigit_c :: "char \<Rightarrow> bool" where
  "isdigit_c c = (48 \<le> (of_char c :: nat) \<and> (of_char c :: nat) \<le> 57)"

definition isspace_c :: "char \<Rightarrow> bool" where
  "isspace_c c = ((of_char c :: nat) = 32 \<or> (9 \<le> (of_char c :: nat) \<and> (of_char c :: nat) \<le> 13))"

definition digit_val :: "char \<Rightarrow> int" where
  "digit_val c = int (of_char c) - 48"

text \<open>The digit loop of \<open>strtol\<close> and of the \<open>%d\<close> conversion: value read so far, rest of input.\<close>

fun scan_digits :: "int \<Rightarrow> string \<Rightarrow> int \<times> string" where
  "scan_digits acc [] = (acc, [])"
| "scan_digits acc (c # cs) =
     (if isdigit_c c then scan_digits (acc * 10 + digit_val c) cs else (acc, c # cs))"

text \<open>
  One \<open>%d\<close> conversion: skip white space, take an optional sign, then at least one digit.
  \<open>None\<close> is a matching failure.
\<close>

definition scan_unsigned :: "string \<Rightarrow> (int \<times> string) option" where
  "scan_unsigned s =
     (case s of
        [] \<Rightarrow> None
      | c # cs \<Rightarrow> if isdigit_c c then Some (scan_digits 0 (c # cs)) else None)"

definition scan_int :: "string \<Rightarrow> (int \<times> string) option" where
  "scan_int s =
     (case dropWhile isspace_c s of
        [] \<Rightarrow> None
      | c # cs \<Rightarrow>
          if c = CHR ''-'' then
            (case scan_unsigned cs of None \<Rightarrow> None | Some (n, r) \<Rightarrow> Some (- n, r))
          else if c = CHR ''+'' then scan_unsigned cs
          else scan_unsigned (c # cs))"

text \<open>
  Both \<open>atoi\<close> and the \<open>%d\<close> conversion of \<open>sscanf\<close> convert the digits with
  \<open>strtol\<close>, whose result is a \<open>long\<close> (64 bits on Linux x86-64) that saturates at
  \<open>LONG_MIN\<close> and \<open>LONG_MAX\<close>, and store it in an \<open>int\<close>, which keeps the low 32 bits
  in two's complement.
\<close>

definition strtol_saturate :: "int \<Rightarrow> int" where
  "strtol_saturate n = max (- 9223372036854775808) (min 9223372036854775807 n)"

definition int_of_long :: "int \<Rightarrow> int" where
  "int_of_long l = (l + 2147483648) mod 4294967296 - 2147483648"

definition store_int :: "int \<Rightarrow> int" where
  "store_int n = int_of_long (strtol_saturate n)"

text \<open>\<open>atoi\<close>: the leading integer of the text, 0 when there is none.\<close>

definition atoi :: "string \<Rightarrow> int" where
  "atoi s = (case scan_int s of None \<Rightarrow> 0 | Some (n, r) \<Rightarrow> store_int n)"

text \<open>
  \<open>sscanf(tok, "%d", &a)\<close> and \<open>sscanf(tok, "%d-%d", &a, &b)\<close>: the list of values
  stored in \<open>a\<close> and \<open>b\<close>, whose length is the number of conversions the call reports.
\<close>

definition sscanf_d :: "string \<Rightarrow> int list" where
  "sscanf_d tok = (case scan_int tok of None \<Rightarrow> [] | Some (a, r) \<Rightarrow> [store_int a])"

definition sscanf_d_minus_d :: "string \<Rightarrow> int list" where
  "sscanf_d_minus_d tok =
     (case scan_int tok of
        None \<Rightarrow> []
      | Some (a, r) \<Rightarrow>
          (case r of
             [] \<Rightarrow> [store_int a]
           | c # r' \<Rightarrow>
               if c = CHR ''-'' then
                 (case scan_int r' of
                    None \<Rightarrow> [store_int a]
                  | Some (b, r'') \<Rightarrow> [store_int a, store_int b])
               else [store_int a]))"

text \<open>
  \<open>strsep(&p, ",")\<close>: the token up to the first comma, and the new value of \<open>p\<close>
  (\<open>None\<close> is the null pointer, set when the text had no comma left).
\<close>

definition strsep :: "string \<Rightarrow> string \<times> string option" where
  "strsep s =
     (takeWhile (\<lambda>c. c \<noteq> CHR '','') s,
      case dropWhile (\<lambda>c. c \<noteq> CHR '','') s of [] \<Rightarrow> None | c # r \<Rightarrow> Some r)"

text \<open>
  \<open>fgets(buf, n, f)\<close> on a stream that delivers \<open>s\<close>: at most \<open>n - 1\<close> bytes, ending
  after the first newline. On a stream that delivers nothing (end of file at once, or a read
  error) \<open>fgets\<close> returns NULL and leaves the buffer as it was.
\<close>

fun line_of :: "string \<Rightarrow> string" where
  "line_of [] = []"
| "line_of (c # cs) = (if c = CHR 0x0A then [c] else c # line_of cs)"

definition fgets :: "nat \<Rightarrow> string \<Rightarrow> string" where
  "fgets n s = take (n - 1) (line_of s)"

text \<open>\<open>printf\<close>'s \<open>%d\<close> for a value that is not negative.\<close>

fun dec :: "nat \<Rightarrow> string" where
  "dec n = (if n < 10 then [char_of (48 + n)] else dec (n div 10) @ [char_of (48 + n mod 10)])"

declare dec.simps [simp del]

section \<open>The shared-CPU list (Linux)\<close>

text \<open>
  The loop \<open>for (int i = a; i <= b; ++i) out[idx++] = i\<close>: the values it appends. When
  \<open>b\<close> is \<open>INT_MAX\<close> the test never fails and \<open>++i\<close> overflows, which is undefined
  behaviour (\<open>None\<close>).
\<close>

definition range_loop :: "int \<Rightarrow> int \<Rightarrow> int list option" where
  "range_loop a b = (if a \<le> b \<and> b = 2147483647 then None else Some [a..b])"

text \<open>
  The body of the \<open>while\<close> loop of \<open>parse_shared_cpu_list\<close>: the values one token appends
  to \<open>out\<close>.
\<close>

definition token_cpus :: "string \<Rightarrow> int list option" where
  "token_cpus tok =
     (case sscanf_d_minus_d tok of
        [a, b] \<Rightarrow> range_loop a b
      | _ \<Rightarrow> (case sscanf_d tok of [a] \<Rightarrow> Some [a] | _ \<Rightarrow> Some []))"

function parse_loop :: "string option \<Rightarrow> int list \<Rightarrow> int list option" where
  "parse_loop None out = Some out"
| "parse_loop (Some s) out =
     (case token_cpus (fst (strsep s)) of
        None \<Rightarrow> None
      | Some cpus \<Rightarrow> parse_loop (snd (strsep s)) (out @ cpus))"
  by pat_completeness auto
termination
proof (relation "measure (\<lambda>(p, out). case p of None \<Rightarrow> 0 | Some s \<Rightarrow> Suc (length s))")
  show "wf (measure (\<lambda>(p, out). case p of None \<Rightarrow> 0 | Some s \<Rightarrow> Suc (length s)))"
    by simp
next
  fix s :: string and out cpus :: "int list"
  have "length r < length s" if "dropWhile (\<lambda>c. c \<noteq> CHR '','') s = c # r" for c r
  proof -
    have "length (dropWhile (\<lambda>c. c \<noteq> CHR '','') s) \<le> length s"
      by (rule length_dropWhile_le)
    with that show ?thesis by simp
  qed
  then show "((snd (strsep s), out @ cpus), (Some s, out))
      \<in> measure (\<lambda>(p, out). case p of None \<Rightarrow> 0 | Some s \<Rightarrow> Suc (length s))"
    by (auto simp: strsep_def split: list.splits)
qed

text \<open>
  \<open>parse_shared_cpu_list(str, out, &out_count)\<close>: the values written to \<open>out[0..]\<close>, in
  order; \<open>out_count\<close> is the length. When \<open>strdup\<close> fails, \<open>p\<close> is NULL, the first
  \<open>strsep\<close> returns NULL and nothing is written. The capacity of \<open>out\<close> belongs to the
  caller and is checked there.
\<close>

definition parse_shared_cpu_list :: "bool \<Rightarrow> string \<Rightarrow> int list option" where
  "parse_shared_cpu_list strdup_ok str = parse_loop (if strdup_ok then Some str else None) []"

section \<open>Cache size text (Linux)\<close>

text \<open>
  Lines 501 to 504 of \<open>populate_caches_and_freq\<close>: \<open>sizeKB = atoi(buf)\<close>, multiplied by
  1024 when the buffer holds an \<open>M\<close> or an \<open>m\<close> anywhere (\<open>strchr\<close>).
\<close>

definition parse_sizeKB :: "string \<Rightarrow> int" where
  "parse_sizeKB buf =
     (if CHR ''M'' \<in> set buf \<or> CHR ''m'' \<in> set buf then atoi buf * 1024 else atoi buf)"


section \<open>Data model (the structs of cpu\_info.c)\<close>

text \<open>
  A pointer to an array is an \<open>option\<close>: \<open>None\<close> is NULL, \<open>Some xs\<close> an allocated block
  holding \<open>xs\<close>. The flags of \<open>CPU_Algorithms\<close> only ever hold 0 or 1 (\<open>!!\<close>), so they are
  booleans.
\<close>

record l2cache =
  l2cache_size :: int
  shared_with_core_number :: int

datatype CoreType = CORE_TYPE_PERFORMANCE | CORE_TYPE_EFFICIENCY | CORE_TYPE_UNKNOWN

record PhysicalCoreInfo =
  id_pc :: int
  type_pc :: CoreType
  logical_ids :: "int list option"
  logical_count :: int

record CPU_Algorithms =
  SSE :: bool
  SSE2 :: bool
  SSE3 :: bool
  SSSE3 :: bool
  SSE4_1 :: bool
  SSE4_2 :: bool
  AVX :: bool
  POPCNT :: bool
  PCLMULQDQ :: bool
  AES :: bool
  FMA :: bool
  F16C :: bool
  XSAVE :: bool
  OSXSAVE :: bool
  RDRAND :: bool
  RDSEED :: bool
  ADX :: bool
  MPX :: bool
  PREFETCHWT1 :: bool
  AVX2 :: bool
  BMI1 :: bool
  BMI2 :: bool
  AVX512F :: bool
  SHA :: bool
  SSE4A :: bool
  XOP :: bool
  FMA4 :: bool
  THREEDNOW_PLUS :: bool

record CPU_DATA =
  cpu_name :: "string option"
  logical_core_count :: int
  physical_core_count :: int
  cores :: "PhysicalCoreInfo list option"
  l1size :: "int list option"
  l2size :: "l2cache list option"
  frequency :: "int list option"
  l3size :: int
  algorithms :: CPU_Algorithms

text \<open>The registers \<open>regs[0..3]\<close> that \<open>cpu_cpuid\<close> fills: EAX, EBX, ECX, EDX.\<close>

record cpuid_regs =
  eax :: "32 word"
  ebx :: "32 word"
  ecx :: "32 word"
  edx :: "32 word"

section \<open>The platform (Linux build)\<close>

text \<open>
  Everything the code reads from outside: the CPUID instruction, \<open>get_nprocs\<close>, the files
  under /sys (\<open>fopen\<close> gives the content of a file that can be opened), \<open>stat\<close> on a
  directory, whether each allocation succeeds, and the content of memory that \<open>malloc\<close>
  returns without initialising it.
\<close>

datatype alloc_site =
    Alloc_brand | Alloc_l1size | Alloc_l2size | Alloc_frequency
  | Alloc_keys | Alloc_temp | Alloc_cores | Alloc_logical_ids nat | Alloc_strdup nat

record platform =
  cpuid :: "32 word \<Rightarrow> 32 word \<Rightarrow> cpuid_regs"
  get_nprocs :: int
  fopen :: "string \<Rightarrow> string option"
  stat_ok :: "string \<Rightarrow> bool"
  alloc_ok :: "alloc_site \<Rightarrow> bool"
  stale :: int

text \<open>
  \<open>calloc(n, size)\<close> with \<open>n\<close> of type \<open>int\<close>: a negative \<open>n\<close> converts to a \<open>size_t\<close>
  whose product with \<open>size\<close> overflows, for which \<open>calloc\<close> returns NULL. \<open>malloc\<close>
  returns a block of unspecified content.
\<close>

definition calloc :: "platform \<Rightarrow> alloc_site \<Rightarrow> int \<Rightarrow> 'a \<Rightarrow> 'a list option" where
  "calloc env site n zero =
     (if 0 \<le> n \<and> alloc_ok env site then Some (replicate (nat n) zero) else None)"

definition malloc_ints :: "platform \<Rightarrow> alloc_site \<Rightarrow> int \<Rightarrow> int list option" where
  "malloc_ints env site n =
     (if alloc_ok env site then Some (replicate (nat n) (stale env)) else None)"

text \<open>
  A counted \<open>for\<close> loop whose body may touch memory it does not own: the state after the
  last iteration, or \<open>None\<close> as soon as one iteration is undefined behaviour (a write outside
  a block, a read of an uninitialised buffer).
\<close>

fun for_loop :: "'a list \<Rightarrow> ('a \<Rightarrow> 's \<Rightarrow> 's option) \<Rightarrow> 's \<Rightarrow> 's option" where
  "for_loop [] body s = Some s"
| "for_loop (i # is) body s = (case body i s of None \<Rightarrow> None | Some s' \<Rightarrow> for_loop is body s')"

section \<open>Brand string, vendor string and instruction-set flags\<close>

text \<open>\<open>memcpy\<close> of one register: its four bytes, least significant first (x86).\<close>

definition word_bytes :: "32 word \<Rightarrow> string" where
  "word_bytes w = map (\<lambda>i. char_of (unat (drop_bit (8 * i) w))) [0, 1, 2, 3]"

definition regs_bytes :: "cpuid_regs \<Rightarrow> string" where
  "regs_bytes r = word_bytes (eax r) @ word_bytes (ebx r) @ word_bytes (ecx r) @ word_bytes (edx r)"

text \<open>A buffer read as a C string ends at its first NUL byte.\<close>

definition c_string :: "string \<Rightarrow> string" where
  "c_string buf = takeWhile (\<lambda>c. c \<noteq> CHR 0x00) buf"

text \<open>
  \<open>get_cpu_brand(&data->cpu_name)\<close>: the return code and the new value of the pointer,
  which is left as it was when \<open>malloc(49)\<close> fails.
\<close>

definition get_cpu_brand :: "platform \<Rightarrow> string option \<Rightarrow> int \<times> string option" where
  "get_cpu_brand env out_name =
     (if \<not> alloc_ok env Alloc_brand then (203, out_name)
      else (0, Some (c_string (concat (map (\<lambda>leaf. regs_bytes (cpuid env (0x80000002 + leaf) 0))
                                           [0, 1, 2])))))"

definition get_cpu_vendor :: "(32 word \<Rightarrow> 32 word \<Rightarrow> cpuid_regs) \<Rightarrow> string" where
  "get_cpu_vendor cpu_cpuid =
     (let regs = cpu_cpuid 0 0 in word_bytes (ebx regs) @ word_bytes (edx regs) @ word_bytes (ecx regs))"

definition alg_zero :: CPU_Algorithms where
  "alg_zero = \<lparr>SSE = False, SSE2 = False, SSE3 = False, SSSE3 = False, SSE4_1 = False,
     SSE4_2 = False, AVX = False, POPCNT = False, PCLMULQDQ = False, AES = False, FMA = False,
     F16C = False, XSAVE = False, OSXSAVE = False, RDRAND = False, RDSEED = False, ADX = False,
     MPX = False, PREFETCHWT1 = False, AVX2 = False, BMI1 = False, BMI2 = False,
     AVX512F = False, SHA = False, SSE4A = False, XOP = False, FMA4 = False,
     THREEDNOW_PLUS = False\<rparr>"

definition leaf1_common :: "cpuid_regs \<Rightarrow> CPU_Algorithms \<Rightarrow> CPU_Algorithms" where
  "leaf1_common regs alg =
     alg\<lparr>SSE := bit (edx regs) 25, SSE2 := bit (edx regs) 26, SSE3 := bit (ecx regs) 0,
         SSSE3 := bit (ecx regs) 9, SSE4_1 := bit (ecx regs) 19, SSE4_2 := bit (ecx regs) 20,
         AVX := bit (ecx regs) 28\<rparr>"

definition leaf1_intel :: "cpuid_regs \<Rightarrow> CPU_Algorithms \<Rightarrow> CPU_Algorithms" where
  "leaf1_intel regs alg =
     alg\<lparr>POPCNT := bit (ecx regs) 23, PCLMULQDQ := bit (ecx regs) 1, AES := bit (ecx regs) 25,
         FMA := bit (ecx regs) 12, F16C := bit (ecx regs) 29, XSAVE := bit (ecx regs) 26,
         OSXSAVE := bit (ecx regs) 27, RDRAND := bit (ecx regs) 30\<rparr>"

definition leaf7_common :: "cpuid_regs \<Rightarrow> CPU_Algorithms \<Rightarrow> CPU_Algorithms" where
  "leaf7_common regs alg =
     alg\<lparr>AVX2 := bit (ebx regs) 5, BMI1 := bit (ebx regs) 3, BMI2 := bit (ebx regs) 8,
         AVX512F := bit (ebx regs) 16, SHA := bit (ecx regs) 29\<rparr>"

definition leaf7_intel :: "cpuid_regs \<Rightarrow> CPU_Algorithms \<Rightarrow> CPU_Algorithms" where
  "leaf7_intel regs alg =
     alg\<lparr>RDSEED := bit (ebx regs) 18, ADX := bit (ebx regs) 19, MPX := bit (ebx regs) 14,
         PREFETCHWT1 := bit (ecx regs) 0\<rparr>"

definition leaf_amd :: "cpuid_regs \<Rightarrow> CPU_Algorithms \<Rightarrow> CPU_Algorithms" where
  "leaf_amd regs alg =
     alg\<lparr>SSE4A := bit (ecx regs) 6, XOP := bit (ecx regs) 11, FMA4 := bit (ecx regs) 16,
         THREEDNOW_PLUS := bit (edx regs) 31\<rparr>"

text \<open>
  \<open>get_supported_algorithms\<close>: \<open>memset\<close> to zero, then the five blocks of assignments in
  the order of the source, the vendor-specific ones under their \<open>if\<close>.
\<close>

definition get_supported_algorithms :: "(32 word \<Rightarrow> 32 word \<Rightarrow> cpuid_regs) \<Rightarrow> CPU_Algorithms" where
  "get_supported_algorithms cpu_cpuid =
     (let vendor = c_string (get_cpu_vendor cpu_cpuid);
          is_intel = (vendor = ''GenuineIntel'');
          is_amd = (vendor = ''AuthenticAMD'');
          alg = leaf1_common (cpu_cpuid 1 0) alg_zero;
          alg = (if is_intel then leaf1_intel (cpu_cpuid 1 0) alg else alg);
          alg = leaf7_common (cpu_cpuid 7 0) alg;
          alg = (if is_intel then leaf7_intel (cpu_cpuid 7 0) alg else alg)
      in if is_amd then leaf_amd (cpu_cpuid 0x80000001 0) alg else alg)"


section \<open>Reading small integers from /sys (Linux)\<close>

text \<open>
  The pattern \<open>f = fopen(path, "r"); int v = 0; if (f) { fgets(buf, n, f); v = atoi(buf); }\<close>.
  The buffer is a local array without initialiser, \<open>None\<close> until something is stored in it.
  The result of \<open>fgets\<close> is not checked, so on an empty file \<open>atoi\<close> reads what the buffer
  held before; reading a buffer that was never written is undefined behaviour, the outer
  \<open>None\<close>. Otherwise the value and the buffer afterwards.
\<close>

definition fgets_into :: "nat \<Rightarrow> string \<Rightarrow> string option \<Rightarrow> string option" where
  "fgets_into n s buf = (if s = [] then buf else Some (fgets n s))"

definition read_with :: "(string \<Rightarrow> int) \<Rightarrow> platform \<Rightarrow> nat \<Rightarrow> string \<Rightarrow> string option
    \<Rightarrow> (int \<times> string option) option" where
  "read_with conv env n path buf =
     (case fopen env path of
        None \<Rightarrow> Some (0, buf)
      | Some s \<Rightarrow>
          (case fgets_into n s buf of
             None \<Rightarrow> None
           | Some b \<Rightarrow> Some (conv b, Some b)))"

definition path_phy :: "nat \<Rightarrow> string" where
  "path_phy cpu = ''/sys/devices/system/cpu/cpu'' @ dec cpu @ ''/topology/physical_package_id''"

definition path_core :: "nat \<Rightarrow> string" where
  "path_core cpu = ''/sys/devices/system/cpu/cpu'' @ dec cpu @ ''/topology/core_id''"

definition path_freq :: "nat \<Rightarrow> string" where
  "path_freq cpu = ''/sys/devices/system/cpu/cpu'' @ dec cpu @ ''/cpufreq/scaling_cur_freq''"

definition cache_dir :: "nat \<Rightarrow> string" where
  "cache_dir idx = ''/sys/devices/system/cpu/cpu0/cache/index'' @ dec idx"

section \<open>Topology reconstruction (Linux build of get\_core\_topology)\<close>

text \<open>
  \<open>int key = (phy << 16) | (core & 0xFFFF)\<close> on 32-bit \<open>int\<close>: the shift keeps the low 32
  bits, as the compilers of the supported platforms do.
\<close>

definition make_key :: "int \<Rightarrow> int \<Rightarrow> int" where
  "make_key phy core =
     sint (push_bit 16 (word_of_int phy :: 32 word) OR (word_of_int core AND 0xFFFF))"

text \<open>Lines 273 to 293 (and again 322 to 342): the key of one logical CPU.\<close>

definition topology_key :: "platform \<Rightarrow> nat \<Rightarrow> int option" where
  "topology_key env cpu =
     do {
       (phy, buf) \<leftarrow> read_with atoi env 32 (path_phy cpu) None;
       (core, buf) \<leftarrow> read_with atoi env 32 (path_core cpu) buf;
       Some (make_key phy core)
     }"

text \<open>
  \<open>while (idx < unique && keys[idx] != key) idx++;\<close> of the first pass, and
  \<open>while (keys[idx] != key) idx++;\<close> of the second, which has no bound of its own:
  leaving the block \<open>keys\<close> is undefined behaviour.
\<close>

function find_or_end :: "int list \<Rightarrow> nat \<Rightarrow> int \<Rightarrow> nat \<Rightarrow> nat option" where
  "find_or_end keys unique key idx =
     (if idx < unique then
        (if idx < length keys then
           (if keys ! idx \<noteq> key then find_or_end keys unique key (Suc idx) else Some idx)
         else None)
      else Some idx)"
  by pat_completeness auto
termination
  by (relation "measure (\<lambda>(keys, unique, key, idx). unique - idx)") auto

function find_existing :: "int list \<Rightarrow> int \<Rightarrow> nat \<Rightarrow> nat option" where
  "find_existing keys key idx =
     (if idx < length keys then
        (if keys ! idx \<noteq> key then find_existing keys key (Suc idx) else Some idx)
      else None)"
  by pat_completeness auto
termination
  by (relation "measure (\<lambda>(keys, key, idx). length keys - idx)") auto

declare find_or_end.simps [simp del] find_existing.simps [simp del]

definition core_zero :: PhysicalCoreInfo where
  "core_zero = \<lparr>id_pc = 0, type_pc = CORE_TYPE_PERFORMANCE, logical_ids = None, logical_count = 0\<rparr>"

text \<open>Body of the first loop (lines 272 to 304), on \<open>keys\<close>, \<open>temp\<close> and \<open>unique\<close>.\<close>

definition discover_body :: "platform \<Rightarrow> nat \<Rightarrow> int list \<times> PhysicalCoreInfo list \<times> nat
    \<Rightarrow> (int list \<times> PhysicalCoreInfo list \<times> nat) option" where
  "discover_body env cpu st =
     (case st of (keys, temp, unique) \<Rightarrow>
        do {
          key \<leftarrow> topology_key env cpu;
          idx \<leftarrow> find_or_end keys unique key 0;
          (keys, temp, unique) \<leftarrow>
            (if idx = unique then
               (if unique < length keys \<and> unique < length temp then
                  Some (keys[unique := key],
                        temp[unique := (temp ! unique)\<lparr>id_pc := key, type_pc := CORE_TYPE_UNKNOWN,
                                                      logical_count := 0\<rparr>],
                        Suc unique)
                else None)
             else Some (keys, temp, unique));
          if idx < length temp then
            Some (keys, temp[idx := (temp ! idx)\<lparr>logical_count := logical_count (temp ! idx) + 1\<rparr>],
                  unique)
          else None
        })"

text \<open>
  Lines 314 to 319: \<open>cores[i] = temp[i]\<close>, a fresh block for \<open>logical_ids\<close> (the result of
  \<open>malloc\<close> is not checked) and \<open>logical_count\<close> back to 0.
\<close>

definition init_core :: "platform \<Rightarrow> PhysicalCoreInfo list \<Rightarrow> nat \<Rightarrow> PhysicalCoreInfo" where
  "init_core env temp i =
     (temp ! i)\<lparr>logical_ids := malloc_ints env (Alloc_logical_ids i) (logical_count (temp ! i)),
               logical_count := 0\<rparr>"

text \<open>Body of the last loop (lines 321 to 347), on \<open>data->cores\<close>.\<close>

definition assign_body :: "platform \<Rightarrow> int list \<Rightarrow> nat \<Rightarrow> PhysicalCoreInfo list
    \<Rightarrow> PhysicalCoreInfo list option" where
  "assign_body env keys cpu cs =
     do {
       key \<leftarrow> topology_key env cpu;
       idx \<leftarrow> find_existing keys key 0;
       if idx < length cs then
         (case logical_ids (cs ! idx) of
            None \<Rightarrow> None
          | Some ids \<Rightarrow>
              if 0 \<le> logical_count (cs ! idx) \<and> nat (logical_count (cs ! idx)) < length ids then
                Some (cs[idx := (cs ! idx)\<lparr>
                        logical_ids := Some (ids[nat (logical_count (cs ! idx)) := int cpu]),
                        logical_count := logical_count (cs ! idx) + 1\<rparr>])
              else None)
       else None
     }"

text \<open>
  \<open>get_core_topology\<close>: the return code and the record afterwards; \<open>None\<close> when the run
  is undefined behaviour.
\<close>

definition get_core_topology :: "platform \<Rightarrow> CPU_DATA \<Rightarrow> (int \<times> CPU_DATA) option" where
  "get_core_topology env data =
     (let L = logical_core_count data in
      case (calloc env Alloc_keys L (0 :: int), calloc env Alloc_temp L core_zero) of
        (Some keys0, Some temp0) \<Rightarrow>
          do {
            (keys, temp, unique) \<leftarrow> for_loop [0..<nat L] (discover_body env) (keys0, temp0, 0);
            let data = data\<lparr>physical_core_count := int unique\<rparr>;
            (case calloc env Alloc_cores (int unique) core_zero of
               None \<Rightarrow> Some (203, data\<lparr>cores := None\<rparr>)
             | Some cores0 \<Rightarrow>
                 do {
                   cs \<leftarrow> for_loop [0..<nat L] (assign_body env keys)
                           (map (init_core env temp) [0..<unique]);
                   Some (0, data\<lparr>cores := Some cs\<rparr>)
                 })
          }
      | _ \<Rightarrow> Some (203, data))"

section \<open>Topology reconstruction (Windows build of get\_core\_topology)\<close>

text \<open>
  What \<open>GetLogicalProcessorInformationEx(RelationProcessorCore, ...)\<close> does: whether the
  sizing call ends with \<open>ERROR_INSUFFICIENT_BUFFER\<close>, whether the second call succeeds, and
  the records it returns, each reduced to \<open>Processor.GroupMask[0].Mask\<close>, the only field of a
  record the code reads besides its size.
\<close>

datatype win_alloc_site = WAlloc_buffer | WAlloc_cores | WAlloc_logical_ids nat

record win_topology =
  sizing_insufficient_buffer :: bool
  query_ok :: bool
  core_masks :: "64 word list"
  walloc_ok :: "win_alloc_site \<Rightarrow> bool"
  wstale :: int

text \<open>
  Lines 239 to 255 for record \<open>i\<close>: count the set bits of the mask, allocate a block of
  that many \<open>int\<close> (the result of \<open>malloc\<close> is not checked), then walk the bit positions 0
  to 63 in ascending order and store each set position at \<open>logical_ids[idx++]\<close>.
\<close>

definition count_bits :: "64 word \<Rightarrow> int" where
  "count_bits m = fold (\<lambda>b count. if bit m b then count + 1 else count) [0..<64] 0"

definition collect_body :: "64 word \<Rightarrow> nat \<Rightarrow> int list option \<times> int
    \<Rightarrow> (int list option \<times> int) option" where
  "collect_body m b st =
     (case st of (ids, idx) \<Rightarrow>
        if bit m b then
          (case ids of
             None \<Rightarrow> None
           | Some block \<Rightarrow>
               if 0 \<le> idx \<and> nat idx < length block
               then Some (Some (block[nat idx := int b]), idx + 1)
               else None)
        else Some (ids, idx))"

definition win_core :: "win_topology \<Rightarrow> nat \<Rightarrow> 64 word \<Rightarrow> PhysicalCoreInfo option" where
  "win_core env i m =
     (let count = count_bits m;
          ids0 = (if walloc_ok env (WAlloc_logical_ids i)
                  then Some (replicate (nat count) (wstale env)) else None)
      in map_option
           (\<lambda>(ids, idx). \<lparr>id_pc = int i, type_pc = CORE_TYPE_UNKNOWN, logical_ids = ids,
                          logical_count = count\<rparr>)
           (for_loop [0..<64] (collect_body m) (ids0, 0)))"

definition get_core_topology_win :: "win_topology \<Rightarrow> CPU_DATA \<Rightarrow> (int \<times> CPU_DATA) option" where
  "get_core_topology_win env data =
     (if \<not> sizing_insufficient_buffer env then Some (204, data)
      else if \<not> walloc_ok env WAlloc_buffer then Some (203, data)
      else if \<not> query_ok env then Some (205, data)
      else
        (let core_count = length (core_masks env);
             data = data\<lparr>physical_core_count := int core_count\<rparr>
         in if \<not> walloc_ok env WAlloc_cores then Some (203, data\<lparr>cores := None\<rparr>)
            else
              do {
                cs \<leftarrow> for_loop [0..<core_count]
                        (\<lambda>i cs. map_option (\<lambda>c. cs[i := c]) (win_core env i (core_masks env ! i)))
                        (replicate core_count core_zero);
                Some (0, data\<lparr>cores := Some cs\<rparr>)
              }))"


section \<open>Cache and frequency attribution (Linux build of populate\_caches\_and\_freq)\<close>

text \<open>
  Stores into the per-logical arrays of the record. A store through a null pointer or outside
  the block is undefined behaviour (\<open>None\<close>).
\<close>

definition store :: "'a list option \<Rightarrow> int \<Rightarrow> 'a \<Rightarrow> 'a list option" where
  "store arr i v =
     (case arr of
        None \<Rightarrow> None
      | Some xs \<Rightarrow> if 0 \<le> i \<and> nat i < length xs then Some (xs[nat i := v]) else None)"

definition set_l1size :: "int \<Rightarrow> int \<Rightarrow> CPU_DATA \<Rightarrow> CPU_DATA option" where
  "set_l1size i v data = map_option (\<lambda>a. data\<lparr>l1size := Some a\<rparr>) (store (l1size data) i v)"

definition set_l2size :: "int \<Rightarrow> l2cache \<Rightarrow> CPU_DATA \<Rightarrow> CPU_DATA option" where
  "set_l2size i v data = map_option (\<lambda>a. data\<lparr>l2size := Some a\<rparr>) (store (l2size data) i v)"

definition set_frequency :: "int \<Rightarrow> int \<Rightarrow> CPU_DATA \<Rightarrow> CPU_DATA option" where
  "set_frequency i v data =
     map_option (\<lambda>a. data\<lparr>frequency := Some a\<rparr>) (store (frequency data) i v)"

text \<open>Lines 454 to 459.\<close>

definition zero_body :: "nat \<Rightarrow> CPU_DATA \<Rightarrow> CPU_DATA option" where
  "zero_body i data =
     do {
       data \<leftarrow> set_l1size (int i) 0 data;
       data \<leftarrow> set_l2size (int i) \<lparr>l2cache_size = 0, shared_with_core_number = 0\<rparr> data;
       set_frequency (int i) 0 data
     }"

text \<open>
  Lines 463 to 474. Here the result of \<open>fgets\<close> is checked; \<open>/\<close> on \<open>int\<close> truncates
  towards zero, which is \<open>sdiv\<close>.
\<close>

definition freq_body :: "platform \<Rightarrow> nat \<Rightarrow> CPU_DATA \<Rightarrow> CPU_DATA option" where
  "freq_body env cpu data =
     (case fopen env (path_freq cpu) of
        None \<Rightarrow> Some data
      | Some s \<Rightarrow>
          if s = [] then Some data
          else set_frequency (int cpu) (atoi (fgets 32 s) sdiv 1000) data)"

text \<open>
  Lines 519 to 531: the loop that assigns one cache instance to the logical CPUs of its parsed
  list; \<open>cpuc\<close> is the length of the list.
\<close>

definition assign_cpus :: "int \<Rightarrow> int \<Rightarrow> int list \<Rightarrow> CPU_DATA \<Rightarrow> CPU_DATA option" where
  "assign_cpus level sizeKB cpus data =
     for_loop cpus
       (\<lambda>c data.
          if level = 1 then set_l1size c sizeKB data
          else if level = 2 then
            set_l2size c \<lparr>l2cache_size = sizeKB, shared_with_core_number = int (length cpus)\<rparr> data
          else if level = 3 then Some (data\<lparr>l3size := sizeKB\<rparr>)
          else Some data)
       data"

text \<open>
  Lines 485 to 531 for one directory \<open>index<idx>\<close> that exists. \<open>buf\<close> is shared by the
  level and the size read; \<open>listbuf\<close> starts as the empty string; \<open>cpus\<close> has room for 256
  entries, and \<open>parse_shared_cpu_list\<close> writing more is undefined behaviour.
\<close>

definition cache_index_body :: "platform \<Rightarrow> nat \<Rightarrow> CPU_DATA \<Rightarrow> CPU_DATA option" where
  "cache_index_body env idx data =
     do {
       (level, buf) \<leftarrow> read_with atoi env 64 (cache_dir idx @ ''/level'') None;
       (sizeKB, buf) \<leftarrow> read_with parse_sizeKB env 64 (cache_dir idx @ ''/size'') buf;
       let listbuf = (case fopen env (cache_dir idx @ ''/shared_cpu_list'') of
                        None \<Rightarrow> []
                      | Some s \<Rightarrow> if s = [] then [] else fgets 64 s);
       cpus \<leftarrow> parse_shared_cpu_list (alloc_ok env (Alloc_strdup idx)) listbuf;
       if length cpus > 256 then None else assign_cpus level sizeKB cpus data
     }"

text \<open>Lines 477 to 532: the directories are visited until one is absent or \<open>idx\<close> reaches \<open>L\<close>.\<close>

function cache_loop :: "platform \<Rightarrow> nat \<Rightarrow> nat \<Rightarrow> CPU_DATA \<Rightarrow> CPU_DATA option" where
  "cache_loop env L idx data =
     (if idx < L then
        (if \<not> stat_ok env (cache_dir idx) then Some data
         else
           (case cache_index_body env idx data of
              None \<Rightarrow> None
            | Some data' \<Rightarrow> cache_loop env L (Suc idx) data'))
      else Some data)"
  by pat_completeness auto
termination
  by (relation "measure (\<lambda>(env, L, idx, data). L - idx)") auto

declare cache_loop.simps [simp del]

definition populate_caches_and_freq :: "platform \<Rightarrow> CPU_DATA \<Rightarrow> CPU_DATA option" where
  "populate_caches_and_freq env data =
     (let L = nat (logical_core_count data) in
      do {
        data \<leftarrow> for_loop [0..<L] zero_body data;
        let data = data\<lparr>l3size := 0\<rparr>;
        data \<leftarrow> for_loop [0..<L] (freq_body env) data;
        cache_loop env L 0 data
      })"

section \<open>Cache attribution (Windows build of populate\_caches\_and\_freq)\<close>

text \<open>
  A record of \<open>GetLogicalProcessorInformationEx(RelationCache, ...)\<close>: the fields
  \<open>Level\<close>, \<open>CacheSize\<close> and \<open>GroupMask.Mask\<close> of \<open>CACHE_RELATIONSHIP\<close>, which the
  code reads, and \<open>GroupMask.Group\<close>, the processor group the mask is relative to, which it
  does not read.
\<close>

record cache_relationship =
  Level :: "8 word"
  CacheSize :: "32 word"
  GroupMask_Mask :: "64 word"
  GroupMask_Group :: "16 word"

text \<open>
  Lines 394 to 421: size in KiB by unsigned division, the number of set bits of the mask, then
  the assignment to every set bit position 0 to 63.
\<close>

definition assign_mask :: "cache_relationship \<Rightarrow> CPU_DATA \<Rightarrow> CPU_DATA option" where
  "assign_mask c data =
     (let level = uint (Level c);
          sizeKB = sint (CacheSize c div 1024);
          m = GroupMask_Mask c;
          shared = count_bits m
      in for_loop [0..<64]
           (\<lambda>b data.
              if \<not> bit m b then Some data
              else if level = 1 then set_l1size (int b) sizeKB data
              else if level = 2 then
                set_l2size (int b) \<lparr>l2cache_size = sizeKB, shared_with_core_number = shared\<rparr> data
              else if level = 3 then Some (data\<lparr>l3size := sizeKB\<rparr>)
              else Some data)
           data)"

text \<open>Lines 388 to 425: the \<open>while\<close> loop over the records that the query returned.\<close>

definition cache_records :: "cache_relationship list \<Rightarrow> CPU_DATA \<Rightarrow> CPU_DATA option" where
  "cache_records records data = for_loop records assign_mask data"

section \<open>The exported entry point (Linux build of get\_cpu\_data)\<close>

text \<open>
  The argument is the pointer \<open>data\<close> (\<open>None\<close> is NULL) and the result the return code with
  the record behind the pointer afterwards. The two tests \<open>rc != 200\<close> are those of the
  source.
\<close>

definition get_cpu_data :: "platform \<Rightarrow> CPU_DATA option \<Rightarrow> (int \<times> CPU_DATA option) option" where
  "get_cpu_data env p =
     (case p of
        None \<Rightarrow> Some (201, None)
      | Some data \<Rightarrow>
          (let (rc, name) = get_cpu_brand env (cpu_name data);
               data = data\<lparr>cpu_name := name\<rparr>
           in if rc \<noteq> 200 then Some (rc, Some data)
              else
                (let data = data\<lparr>logical_core_count := get_nprocs env\<rparr>;
                     data = data\<lparr>l1size := calloc env Alloc_l1size (logical_core_count data) 0\<rparr>;
                     data = data\<lparr>l2size := calloc env Alloc_l2size (logical_core_count data)
                                               \<lparr>l2cache_size = 0, shared_with_core_number = 0\<rparr>\<rparr>;
                     data = data\<lparr>frequency := calloc env Alloc_frequency (logical_core_count data) 0\<rparr>;
                     data = data\<lparr>l3size := 0\<rparr>
                 in if l1size data = None \<or> l2size data = None \<or> frequency data = None
                    then Some (203, Some data)
                    else
                      do {
                        data \<leftarrow> populate_caches_and_freq env data;
                        let data = data\<lparr>algorithms := get_supported_algorithms (cpuid env)\<rparr>;
                        (rc, data) \<leftarrow> get_core_topology env data;
                        if rc \<noteq> 200 then Some (rc, Some data) else Some (0, Some data)
                      })))"


section \<open>The shared-CPU list as the specification words it\<close>

text \<open>
  The specification describes the list as comma-separated tokens, each a single integer or a
  range \<open>a-b\<close>. These definitions follow its words, to be compared with
  \<open>parse_shared_cpu_list\<close>: a token, its text, and the logical indices it stands for.
\<close>

datatype spec_token = Single nat | Range nat nat

fun spec_render :: "spec_token \<Rightarrow> string" where
  "spec_render (Single a) = dec a"
| "spec_render (Range a b) = dec a @ ''-'' @ dec b"

fun spec_indices :: "spec_token \<Rightarrow> int list" where
  "spec_indices (Single a) = [int a]"
| "spec_indices (Range a b) = [int a..int b]"

text \<open>
  The tokens whose numbers a C \<open>int\<close> holds; the upper end of a range is below \<open>INT_MAX\<close>,
  where the loop over the range ends.
\<close>

fun token_in_range :: "spec_token \<Rightarrow> bool" where
  "token_in_range (Single a) = (a < 2 ^ 31)"
| "token_in_range (Range a b) = (a < 2 ^ 31 \<and> b < 2 ^ 31 - 1)"

fun join_commas :: "string list \<Rightarrow> string" where
  "join_commas [] = []"
| "join_commas [t] = t"
| "join_commas (t # u # ts) = t @ '','' @ join_commas (u # ts)"


text \<open>Where the digit loop stops: at the end of the text or at a byte that is not a digit.\<close>

definition stops :: "string \<Rightarrow> bool" where
  "stops r = (case r of [] \<Rightarrow> True | c # cs \<Rightarrow> \<not> isdigit_c c)"


section \<open>Example platforms\<close>

text \<open>
  CPUID of a processor that reports the vendor AuthenticAMD, and of one that reports
  GenuineIntel, with every bit of every other leaf set.
\<close>

definition ones :: cpuid_regs where
  "ones = \<lparr>eax = 0xFFFFFFFF, ebx = 0xFFFFFFFF, ecx = 0xFFFFFFFF, edx = 0xFFFFFFFF\<rparr>"

definition cpuid_amd_all_bits :: "32 word \<Rightarrow> 32 word \<Rightarrow> cpuid_regs" where
  "cpuid_amd_all_bits leaf subleaf =
     (if leaf = 0 then \<lparr>eax = 0x10, ebx = 0x68747541, ecx = 0x444D4163, edx = 0x69746E65\<rparr>
      else ones)"

definition cpuid_intel_all_bits :: "32 word \<Rightarrow> 32 word \<Rightarrow> cpuid_regs" where
  "cpuid_intel_all_bits leaf subleaf =
     (if leaf = 0 then \<lparr>eax = 0x16, ebx = 0x756E6547, ecx = 0x6C65746E, edx = 0x49656E69\<rparr>
      else ones)"


section \<open>Notions that describe the result of the topology reconstruction\<close>

text \<open>
  Used only to state and prove properties: the keys in the order in which they are first
  seen, the position of a key among them, the logical CPUs with a given key among the first
  \<open>n\<close>, and the content of \<open>temp\<close> and \<open>data->cores\<close> after \<open>n\<close> iterations of the first and
  of the last loop of the Linux \<open>get_core_topology\<close>.
\<close>

definition first_seen :: "int list \<Rightarrow> int list" where
  "first_seen xs = rev (remdups (rev xs))"

definition pos :: "int list \<Rightarrow> int \<Rightarrow> nat" where
  "pos us k = length (takeWhile (\<lambda>u. u \<noteq> k) us)"

definition members :: "(nat \<Rightarrow> int) \<Rightarrow> nat \<Rightarrow> int \<Rightarrow> nat list" where
  "members K n k = filter (\<lambda>c. K c = k) [0..<n]"

definition temp_entry :: "(nat \<Rightarrow> int) \<Rightarrow> nat \<Rightarrow> int \<Rightarrow> PhysicalCoreInfo" where
  "temp_entry K n k =
     \<lparr>id_pc = k, type_pc = CORE_TYPE_UNKNOWN, logical_ids = None,
      logical_count = int (length (members K n k))\<rparr>"

definition discovered :: "(nat \<Rightarrow> int) \<Rightarrow> nat \<Rightarrow> nat
    \<Rightarrow> int list \<times> PhysicalCoreInfo list \<times> nat" where
  "discovered K L n =
     (let us = first_seen (map K [0..<n])
      in (us @ replicate (L - length us) 0,
          map (temp_entry K n) us @ replicate (L - length us) core_zero,
          length us))"

definition core_entry :: "platform \<Rightarrow> (nat \<Rightarrow> int) \<Rightarrow> nat \<Rightarrow> nat \<Rightarrow> int list \<Rightarrow> nat
    \<Rightarrow> PhysicalCoreInfo" where
  "core_entry env K L n us i =
     \<lparr>id_pc = us ! i, type_pc = CORE_TYPE_UNKNOWN,
      logical_ids =
        (if alloc_ok env (Alloc_logical_ids i)
         then Some (map int (members K n (us ! i))
                    @ replicate (length (members K L (us ! i)) - length (members K n (us ! i)))
                        (stale env))
         else None),
      logical_count = int (length (members K n (us ! i)))\<rparr>"

definition final_core :: "(nat \<Rightarrow> int) \<Rightarrow> nat \<Rightarrow> int \<Rightarrow> PhysicalCoreInfo" where
  "final_core K L k =
     \<lparr>id_pc = k, type_pc = CORE_TYPE_UNKNOWN, logical_ids = Some (map int (members K L k)),
      logical_count = int (length (members K L k))\<rparr>"

definition cpu_key :: "platform \<Rightarrow> nat \<Rightarrow> int" where
  "cpu_key env cpu = (case topology_key env cpu of None \<Rightarrow> 0 | Some k \<Rightarrow> k)"


definition seen_keys :: "platform \<Rightarrow> CPU_DATA \<Rightarrow> int list" where
  "seen_keys env data = first_seen (map (cpu_key env) [0..<nat (logical_core_count data)])"

definition topology_cores :: "platform \<Rightarrow> CPU_DATA \<Rightarrow> PhysicalCoreInfo list" where
  "topology_cores env data =
     map (final_core (cpu_key env) (nat (logical_core_count data))) (seen_keys env data)"

section \<open>The logical indices of a snapshot, and example platforms\<close>

text \<open>
  The \<open>logical_ids\<close> array of a core (a null pointer holds no element), the cores of a
  record, all logical indices of a record in the order of the cores, and the set bit positions
  of a Windows affinity mask. Then a zeroed \<open>CPU_DATA\<close>, as \<open>CPU_DATA data = {0}\<close> gives it,
  and small platforms on which the functions are run.
\<close>

definition ids_of :: "PhysicalCoreInfo \<Rightarrow> int list" where
  "ids_of c = (case logical_ids c of None \<Rightarrow> [] | Some ids \<Rightarrow> ids)"

definition mask_bits :: "64 word \<Rightarrow> nat list" where
  "mask_bits m = filter (bit m) [0..<64]"

definition cores_of :: "CPU_DATA \<Rightarrow> PhysicalCoreInfo list" where
  "cores_of data = (case cores data of None \<Rightarrow> [] | Some cs \<Rightarrow> cs)"

definition all_ids :: "CPU_DATA \<Rightarrow> int list" where
  "all_ids data = concat (map ids_of (cores_of data))"

definition regs_zero :: cpuid_regs where
  "regs_zero = \<lparr>eax = 0, ebx = 0, ecx = 0, edx = 0\<rparr>"

definition data_zero :: CPU_DATA where
  "data_zero =
     \<lparr>cpu_name = None, logical_core_count = 0, physical_core_count = 0, cores = None,
      l1size = None, l2size = None, frequency = None, l3size = 0, algorithms = alg_zero\<rparr>"

definition win_example :: "64 word list \<Rightarrow> win_topology" where
  "win_example ms =
     \<lparr>sizing_insufficient_buffer = True, query_ok = True, core_masks = ms,
      walloc_ok = (\<lambda>site. True), wstale = 0\<rparr>"

definition linux_example :: "int \<Rightarrow> (string \<times> string) list \<Rightarrow> string list \<Rightarrow> platform" where
  "linux_example n files dirs =
     \<lparr>cpuid = (\<lambda>leaf subleaf. regs_zero), get_nprocs = n, fopen = map_of files,
      stat_ok = (\<lambda>dir. dir \<in> set dirs), alloc_ok = (\<lambda>site. True), stale = 0\<rparr>"

definition core_with :: "int \<Rightarrow> int list \<Rightarrow> PhysicalCoreInfo" where
  "core_with k ids =
     \<lparr>id_pc = k, type_pc = CORE_TYPE_UNKNOWN, logical_ids = Some ids,
      logical_count = int (length ids)\<rparr>"

definition two_groups_result :: CPU_DATA where
  "two_groups_result =
     data_zero\<lparr>logical_core_count := 4, physical_core_count := 2,
                cores := Some [core_with 0 [0, 1], core_with 1 [0, 1]]\<rparr>"

definition one_group_result :: CPU_DATA where
  "one_group_result =
     data_zero\<lparr>logical_core_count := 4, physical_core_count := 2,
                cores := Some [core_with 0 [0, 1], core_with 1 [2, 3]]\<rparr>"

definition newline :: string where
  "newline = [CHR 0x0A]"

definition two_core_files :: "(string \<times> string) list" where
  "two_core_files =
     [(path_phy 0, ''0'' @ newline), (path_core 0, ''0'' @ newline),
      (path_phy 1, ''0'' @ newline), (path_core 1, ''0'' @ newline),
      (path_phy 2, ''0'' @ newline), (path_core 2, ''1'' @ newline),
      (path_phy 3, ''0'' @ newline), (path_core 3, ''1'' @ newline)]"

text \<open>
  Two logical CPUs whose core ids 1 and 65537 differ by 65536, and the records expected for
  them and for a machine without topology files.
\<close>

definition wide_core_files :: "(string \<times> string) list" where
  "wide_core_files =
     [(path_phy 0, ''0'' @ newline), (path_core 0, ''1'' @ newline),
      (path_phy 1, ''0'' @ newline), (path_core 1, ''65537'' @ newline)]"

definition merged_result :: CPU_DATA where
  "merged_result =
     data_zero\<lparr>logical_core_count := 2, physical_core_count := 1,
                cores := Some [core_with 1 [0, 1]]\<rparr>"

definition collapsed_result :: CPU_DATA where
  "collapsed_result =
     data_zero\<lparr>logical_core_count := 2, physical_core_count := 1,
                cores := Some [core_with 0 [0, 1]]\<rparr>"

text \<open>
  The L2 array of a record, the parsed shared-CPU list of one cache index directory, and a
  record with four logical cores on which one L2 instance shared by cores 0 and 1 is assigned.
\<close>

definition l2_of :: "CPU_DATA \<Rightarrow> l2cache list" where
  "l2_of data = (case l2size data of None \<Rightarrow> [] | Some xs \<Rightarrow> xs)"

definition shared_cpus :: "platform \<Rightarrow> nat \<Rightarrow> int list option" where
  "shared_cpus env idx =
     parse_shared_cpu_list (alloc_ok env (Alloc_strdup idx))
       (case fopen env (cache_dir idx @ ''/shared_cpu_list'') of
          None \<Rightarrow> []
        | Some s \<Rightarrow> if s = [] then [] else fgets 64 s)"

definition l2_zero :: l2cache where
  "l2_zero = \<lparr>l2cache_size = 0, shared_with_core_number = 0\<rparr>"

definition l2_example :: CPU_DATA where
  "l2_example =
     data_zero\<lparr>logical_core_count := 4, l2size := Some [l2_zero, l2_zero, l2_zero, l2_zero]\<rparr>"

definition l2_256 :: l2cache where
  "l2_256 = \<lparr>l2cache_size = 256, shared_with_core_number = 2\<rparr>"

definition cache_record_example :: cache_relationship where
  "cache_record_example =
     \<lparr>Level = 2, CacheSize = 262144, GroupMask_Mask = 3, GroupMask_Group = 0\<rparr>"

definition l2_example_result :: CPU_DATA where
  "l2_example_result =
     l2_example\<lparr>l2size := Some [l2_256, l2_256, l2_zero, l2_zero]\<rparr>"

text \<open>
  A four-CPU machine whose directories \<open>index0\<close>, \<open>index1\<close> and \<open>index2\<close> under
  \<open>cpu0/cache\<close> describe a 32 KiB L1 and a 256 KiB L2 shared by the logical CPUs 0 and 1, and
  an 8 MiB L3 shared by all four; the record as \<open>get_cpu_data\<close> allocates it, and the record
  expected after \<open>populate_caches_and_freq\<close>.
\<close>

definition cache_files :: "(string \<times> string) list" where
  "cache_files =
     [(cache_dir 0 @ ''/level'', ''1'' @ newline), (cache_dir 0 @ ''/size'', ''32K'' @ newline),
      (cache_dir 0 @ ''/shared_cpu_list'', ''0-1'' @ newline),
      (cache_dir 1 @ ''/level'', ''2'' @ newline), (cache_dir 1 @ ''/size'', ''256K'' @ newline),
      (cache_dir 1 @ ''/shared_cpu_list'', ''0-1'' @ newline),
      (cache_dir 2 @ ''/level'', ''3'' @ newline), (cache_dir 2 @ ''/size'', ''8M'' @ newline),
      (cache_dir 2 @ ''/shared_cpu_list'', ''0-3'' @ newline)]"

definition cache_dirs :: "string list" where
  "cache_dirs = [cache_dir 0, cache_dir 1, cache_dir 2]"

definition cache_example :: CPU_DATA where
  "cache_example =
     data_zero\<lparr>logical_core_count := 4, l1size := Some [0, 0, 0, 0],
                l2size := Some [l2_zero, l2_zero, l2_zero, l2_zero],
                frequency := Some [0, 0, 0, 0]\<rparr>"

definition cache_example_result :: CPU_DATA where
  "cache_example_result =
     cache_example\<lparr>l1size := Some [32, 32, 0, 0],
                    l2size := Some [l2_256, l2_256, l2_zero, l2_zero], l3size := 8192\<rparr>"

text \<open>
  Two L2 records of a Windows machine with two processor groups of two logical processors each:
  a 256 KiB cache shared by the two processors of group 0 and a 512 KiB cache shared by the two
  processors of group 1. Both masks are relative to their group.
\<close>

definition group0_l2 :: cache_relationship where
  "group0_l2 = \<lparr>Level = 2, CacheSize = 262144, GroupMask_Mask = 3, GroupMask_Group = 0\<rparr>"

definition group1_l2 :: cache_relationship where
  "group1_l2 = \<lparr>Level = 2, CacheSize = 524288, GroupMask_Mask = 3, GroupMask_Group = 1\<rparr>"

definition l2_512 :: l2cache where
  "l2_512 = \<lparr>l2cache_size = 512, shared_with_core_number = 2\<rparr>"

definition two_groups_l2_result :: CPU_DATA where
  "two_groups_l2_result =
     l2_example\<lparr>l2size := Some [l2_512, l2_512, l2_zero, l2_zero]\<rparr>"

text \<open>
  The frequency array of a record, and a one-CPU platform whose scaling-frequency file holds
  2400000.
\<close>

definition freq_of :: "CPU_DATA \<Rightarrow> int list" where
  "freq_of data = (case frequency data of None \<Rightarrow> [] | Some xs \<Rightarrow> xs)"

definition freq_files :: "(string \<times> string) list" where
  "freq_files = [(path_freq 0, ''2400000'' @ newline)]"

definition freq_example :: CPU_DATA where
  "freq_example =
     data_zero\<lparr>logical_core_count := 1, l1size := Some [7], l2size := Some [l2_256],
                frequency := Some [9]\<rparr>"

definition freq_example_result :: CPU_DATA where
  "freq_example_result =
     data_zero\<lparr>logical_core_count := 1, l1size := Some [0], l2size := Some [l2_zero],
                frequency := Some [2400]\<rparr>"

text \<open>The L1 array of a record.\<close>

definition l1_of :: "CPU_DATA \<Rightarrow> int list" where
  "l1_of data = (case l1size data of None \<Rightarrow> [] | Some xs \<Rightarrow> xs)"

text \<open>
  Two logical CPUs of package 1 with the core ids 0 and 1 would be two physical cores. Here the
  \<open>core_id\<close> file of the second CPU can be opened but delivers nothing, and the record shows
  what \<open>get_core_topology\<close> makes of it. Then a machine with one logical CPU whose two
  topology files can be opened and deliver nothing.
\<close>

definition unreadable_core_files :: "(string \<times> string) list" where
  "unreadable_core_files =
     [(path_phy 0, ''1'' @ newline), (path_core 0, ''0'' @ newline),
      (path_phy 1, ''1'' @ newline), (path_core 1, [])]"

definition split_result :: CPU_DATA where
  "split_result =
     data_zero\<lparr>logical_core_count := 2, physical_core_count := 2,
                cores := Some [core_with 65536 [0], core_with 65537 [1]]\<rparr>"

definition empty_topology_files :: "(string \<times> string) list" where
  "empty_topology_files = [(path_phy 0, []), (path_core 0, [])]"

section \<open>Properties: text routines\<close>

lemma isdigit_digit: "(d::nat) < 10 \<Longrightarrow> isdigit_c (char_of (48 + d))"
  by (simp add: isdigit_c_def)

lemma digit_val_digit: "(d::nat) < 10 \<Longrightarrow> digit_val (char_of (48 + d)) = int d"
  by (simp add: digit_val_def)

lemma dec_digits: "c \<in> set (dec n) \<Longrightarrow> isdigit_c c"
proof (induction n rule: dec.induct)
  case (1 n)
  show ?case
  proof (cases "n < 10")
    case True
    with "1.prems" show ?thesis by (simp add: dec.simps [of n] isdigit_digit)
  next
    case False
    with "1.prems" have "c \<in> set (dec (n div 10)) \<or> c = char_of (48 + n mod 10)"
      by (auto simp: dec.simps [of n])
    then show ?thesis
      using "1.IH" False by (auto simp: isdigit_digit)
  qed
qed

lemma dec_nonempty: "dec n \<noteq> []"
  by (subst dec.simps) simp

lemma scan_digits_append:
  "scan_digits acc (dec n @ r) = scan_digits (acc * 10 ^ length (dec n) + int n) r"
proof (induction n arbitrary: acc r rule: dec.induct)
  case (1 n)
  show ?case
  proof (cases "n < 10")
    case True
    then show ?thesis
      by (simp add: dec.simps [of n] isdigit_digit digit_val_digit)
  next
    case False
    have "scan_digits acc (dec n @ r) = scan_digits acc (dec (n div 10) @ (char_of (48 + n mod 10) # r))"
      using False by (simp add: dec.simps [of n])
    also have "\<dots> = scan_digits (acc * 10 ^ length (dec (n div 10)) + int (n div 10)) (char_of (48 + n mod 10) # r)"
      using False by (simp add: "1.IH")
    also have "\<dots> = scan_digits ((acc * 10 ^ length (dec (n div 10)) + int (n div 10)) * 10 + int (n mod 10)) r"
      by (simp add: isdigit_digit digit_val_digit)
    also have "(acc * 10 ^ length (dec (n div 10)) + int (n div 10)) * 10 + int (n mod 10)
        = acc * 10 ^ length (dec n) + int n"
    proof -
      have "length (dec n) = Suc (length (dec (n div 10)))"
        using False by (simp add: dec.simps [of n])
      moreover have "int (n div 10) * 10 + int (n mod 10) = int n"
        by (simp add: zdiv_int zmod_int)
      ultimately show ?thesis by (simp add: algebra_simps)
    qed
    finally show ?thesis .
  qed
qed

lemma scan_digits_stop: "stops r \<Longrightarrow> scan_digits acc r = (acc, r)"
  by (cases r) (simp_all add: stops_def)

lemma scan_unsigned_dec: "stops r \<Longrightarrow> scan_unsigned (dec n @ r) = Some (int n, r)"
proof -
  assume r: "stops r"
  obtain c cs where d: "dec n = c # cs" using dec_nonempty [of n] by (cases "dec n") auto
  then have "isdigit_c c" using dec_digits [of c n] by simp
  moreover have "scan_digits 0 (dec n @ r) = (int n, r)"
    using r by (simp add: scan_digits_append scan_digits_stop)
  ultimately show ?thesis using d by (simp add: scan_unsigned_def)
qed

lemma digit_not_space: "isdigit_c c \<Longrightarrow> \<not> isspace_c c"
  by (auto simp: isdigit_c_def isspace_c_def)

lemma scan_int_dec: "stops r \<Longrightarrow> scan_int (dec n @ r) = Some (int n, r)"
proof -
  assume r: "stops r"
  obtain c cs where d: "dec n = c # cs" using dec_nonempty [of n] by (cases "dec n") auto
  then have dg: "isdigit_c c" using dec_digits [of c n] by simp
  then have "c \<noteq> CHR ''-''" "c \<noteq> CHR ''+''" "\<not> isspace_c c"
    by (auto simp: isdigit_c_def isspace_c_def)
  then have "scan_int (dec n @ r) = scan_unsigned (dec n @ r)"
    using d by (simp add: scan_int_def)
  then show ?thesis using r by (simp add: scan_unsigned_dec)
qed


lemma stops_simps: "stops []" "stops (CHR 0x0A # r)" "stops (CHR ''-'' # r)"
  "stops (CHR ''K'' # r)" "stops (CHR ''k'' # r)" "stops (CHR ''M'' # r)" "stops (CHR ''m'' # r)"
  by (simp_all add: stops_def isdigit_c_def)

lemma store_int_id: "- (2 ^ 31) \<le> n \<Longrightarrow> n < 2 ^ 31 \<Longrightarrow> store_int n = n"
  by (simp add: store_int_def strtol_saturate_def int_of_long_def)

lemma store_int_nat: "n < 2 ^ 31 \<Longrightarrow> store_int (int n) = int n"
  by (rule store_int_id) simp_all

lemma atoi_dec: "stops r \<Longrightarrow> n < 2 ^ 31 \<Longrightarrow> atoi (dec n @ r) = int n"
  by (simp add: atoi_def scan_int_dec store_int_nat)

lemma store_int_wraps:
  "store_int 4294967296 = 0" "store_int 2147483648 = - 2147483648"
  "store_int (10 ^ 19) = - 1"
  "atoi ''4294967297'' = 1"
  "parse_shared_cpu_list True ''4294967296-4294967298'' = Some [0, 1, 2]"
  "parse_shared_cpu_list True ''0-2147483647'' = None"
  by code_simp+

lemma token_cpus_render:
  assumes "sfx = [] \<or> sfx = [CHR 0x0A]" and fits: "token_in_range t"
  shows "token_cpus (spec_render t @ sfx) = Some (spec_indices t)"
proof (cases t)
  case (Single a)
  have "stops sfx" using assms by (auto simp: stops_simps)
  then have s: "scan_int (dec a @ sfx) = Some (int a, sfx)" by (rule scan_int_dec)
  have a: "store_int (int a) = int a" using fits Single by (simp add: store_int_nat)
  have "sscanf_d_minus_d (dec a @ sfx) = [int a]"
    using assms by (auto simp: sscanf_d_minus_d_def s a)
  moreover have "sscanf_d (dec a @ sfx) = [int a]"
    by (simp add: sscanf_d_def s a)
  ultimately show ?thesis using Single by (simp add: token_cpus_def)
next
  case (Range a b)
  have "stops sfx" using assms by (auto simp: stops_simps)
  then have sb: "scan_int (dec b @ sfx) = Some (int b, sfx)" by (rule scan_int_dec)
  have sa: "scan_int (dec a @ CHR ''-'' # dec b @ sfx) = Some (int a, CHR ''-'' # dec b @ sfx)"
    by (rule scan_int_dec) (simp add: stops_simps)
  have a: "store_int (int a) = int a" and b: "store_int (int b) = int b"
    using fits Range by (simp_all add: store_int_nat)
  have "int b \<noteq> 2147483647" using fits Range by simp
  then have r: "range_loop (int a) (int b) = Some [int a..int b]"
    by (simp add: range_loop_def)
  have "sscanf_d_minus_d (dec a @ CHR ''-'' # dec b @ sfx) = [int a, int b]"
    by (simp add: sscanf_d_minus_d_def sa sb a b)
  then show ?thesis using Range by (simp add: token_cpus_def r)
qed

lemma strsep_last: "CHR '','' \<notin> set t \<Longrightarrow> strsep t = (t, None)"
proof -
  assume a: "CHR '','' \<notin> set t"
  then have "takeWhile (\<lambda>c. c \<noteq> CHR '','') t = t" by (intro takeWhile_eq_all_conv [THEN iffD2]) auto
  moreover from a have "dropWhile (\<lambda>c. c \<noteq> CHR '','') t = []" by (intro dropWhile_eq_Nil_conv [THEN iffD2]) auto
  ultimately show ?thesis by (simp only: strsep_def list.case)
qed

lemma strsep_comma: "CHR '','' \<notin> set t \<Longrightarrow> strsep (t @ CHR '','' # r) = (t, Some r)"
proof -
  assume a: "CHR '','' \<notin> set t"
  then have "takeWhile (\<lambda>c. c \<noteq> CHR '','') (t @ CHR '','' # r) = t"
    by (subst takeWhile_append2) auto
  moreover from a have "dropWhile (\<lambda>c. c \<noteq> CHR '','') (t @ CHR '','' # r) = CHR '','' # r"
    by (subst dropWhile_append2) auto
  ultimately show ?thesis by (simp add: strsep_def)
qed

lemma token_cpus_empty: "token_cpus [] = Some []"
  by (simp add: token_cpus_def sscanf_d_minus_d_def sscanf_d_def scan_int_def)

lemma parse_loop_join:
  assumes "list_all2 (\<lambda>t cpus. CHR '','' \<notin> set t \<and> token_cpus t = Some cpus) ts cpuss"
  shows "parse_loop (Some (join_commas ts)) out = Some (out @ concat cpuss)"
  using assms
proof (induction ts cpuss arbitrary: out rule: list_all2_induct)
  case Nil
  have "strsep [] = ([], None)" by (simp add: strsep_def)
  then show ?case by (simp add: token_cpus_empty)
next
  case (Cons t ts cpus cpuss)
  show ?case
  proof (cases ts)
    case Nil
    then have "cpuss = []" using Cons.hyps by simp
    moreover have "strsep t = (t, None)" using Cons.hyps by (simp add: strsep_last)
    ultimately show ?thesis using Nil Cons.hyps by simp
  next
    case (Cons u us)
    have "strsep (t @ CHR '','' # join_commas (u # us)) = (t, Some (join_commas (u # us)))"
      using Cons.hyps by (simp add: strsep_comma)
    moreover have "parse_loop (Some (join_commas ts)) (out @ cpus)
        = Some ((out @ cpus) @ concat cpuss)"
      by (rule Cons.IH)
    ultimately show ?thesis using Cons Cons.hyps by simp
  qed
qed

lemma join_commas_last:
  "ts \<noteq> [] \<Longrightarrow> join_commas ts @ sfx = join_commas (butlast ts @ [last ts @ sfx])"
  by (induction ts rule: join_commas.induct) simp_all

lemma render_no_comma: "CHR '','' \<notin> set (spec_render t)"
proof (cases t)
  case (Single a)
  have "\<not> isdigit_c (CHR '','')" by (simp add: isdigit_c_def)
  then show ?thesis using Single dec_digits by auto
next
  case (Range a b)
  have "\<not> isdigit_c (CHR '','')" by (simp add: isdigit_c_def)
  then show ?thesis using Range dec_digits by auto
qed

lemma parse_sizeKB_K:
  assumes "sfx = CHR ''K'' \<or> sfx = CHR ''k''" "nl = [] \<or> nl = [CHR 0x0A]" "n < 2 ^ 31"
  shows "parse_sizeKB (dec n @ sfx # nl) = int n"
proof -
  have "stops (sfx # nl)" using assms by (auto simp: stops_simps)
  then have "atoi (dec n @ sfx # nl) = int n" using assms(3) by (rule atoi_dec)
  moreover have "\<not> isdigit_c (CHR ''M'')" "\<not> isdigit_c (CHR ''m'')"
    by (simp_all add: isdigit_c_def)
  then have "CHR ''M'' \<notin> set (dec n)" "CHR ''m'' \<notin> set (dec n)"
    using dec_digits [of _ n] by blast+
  ultimately show ?thesis using assms by (auto simp: parse_sizeKB_def)
qed

lemma parse_sizeKB_M:
  assumes "sfx = CHR ''M'' \<or> sfx = CHR ''m''" "n < 2 ^ 31"
  shows "parse_sizeKB (dec n @ sfx # nl) = int n * 1024"
proof -
  have "stops (sfx # nl)" using assms by (auto simp: stops_simps)
  then have "atoi (dec n @ sfx # nl) = int n" using assms(2) by (rule atoi_dec)
  then show ?thesis using assms by (auto simp: parse_sizeKB_def)
qed


text \<open>
  C5. Parsing the shared-CPU list \<open>0-3,8\<close> gives the logical indices 0, 1, 2, 3, 8 in that
  order. In general, for comma-separated tokens that are each a single integer or a range
  \<open>a-b\<close>, every single integer contributes itself and every range its inclusive interval in
  ascending order, the tokens taken from left to right; the list may end with the newline that
  \<open>fgets\<close> keeps. The numbers are those a C \<open>int\<close> holds.
\<close>

theorem parse_shared_cpu_list_tokens:
  "parse_shared_cpu_list True ''0-3,8'' = Some [0, 1, 2, 3, 8] \<and>
   ((\<forall>t \<in> set toks. token_in_range t) \<longrightarrow>
      parse_shared_cpu_list True (join_commas (map spec_render toks))
        = Some (concat (map spec_indices toks))) \<and>
   ((\<forall>t \<in> set toks. token_in_range t) \<and> toks \<noteq> [] \<longrightarrow>
      parse_shared_cpu_list True (join_commas (map spec_render toks) @ newline)
        = Some (concat (map spec_indices toks)))"
proof (intro conjI impI)
  show "parse_shared_cpu_list True ''0-3,8'' = Some [0, 1, 2, 3, 8]" by code_simp
next
  assume fits: "\<forall>t \<in> set toks. token_in_range t"
  have "list_all2 (\<lambda>t cpus. CHR '','' \<notin> set t \<and> token_cpus t = Some cpus)
      (map spec_render toks) (map spec_indices toks)"
    using fits token_cpus_render [of "[]"]
    by (simp add: list_all2_conv_all_nth render_no_comma)
  then have "parse_loop (Some (join_commas (map spec_render toks))) []
      = Some ([] @ concat (map spec_indices toks))"
    by (rule parse_loop_join)
  then show "parse_shared_cpu_list True (join_commas (map spec_render toks))
      = Some (concat (map spec_indices toks))"
    by (simp add: parse_shared_cpu_list_def)
next
  assume a: "(\<forall>t \<in> set toks. token_in_range t) \<and> toks \<noteq> []"
  then have ne: "map spec_render toks \<noteq> []" by simp
  have sp: "toks = butlast toks @ [last toks]" using a by simp
  have no_nl: "CHR '','' \<notin> set (spec_render (last toks) @ newline)"
    using render_no_comma [of "last toks"] by (simp add: newline_def)
  have lt: "token_cpus (spec_render (last toks) @ newline) = Some (spec_indices (last toks))"
    using a token_cpus_render [of newline "last toks"] by (simp add: newline_def)
  have "\<forall>t \<in> set (butlast toks).
      CHR '','' \<notin> set (spec_render t) \<and> token_cpus (spec_render t) = Some (spec_indices t)"
    using a token_cpus_render [of "[]"] by (auto simp: render_no_comma dest: in_set_butlastD)
  then have "list_all2 (\<lambda>t cpus. CHR '','' \<notin> set t \<and> token_cpus t = Some cpus)
      (map spec_render (butlast toks)) (map spec_indices (butlast toks))"
    by (simp add: list_all2_conv_all_nth)
  then have "list_all2 (\<lambda>t cpus. CHR '','' \<notin> set t \<and> token_cpus t = Some cpus)
      (map spec_render (butlast toks) @ [spec_render (last toks) @ newline])
      (map spec_indices (butlast toks) @ [spec_indices (last toks)])"
    using no_nl lt by (intro list_all2_appendI) simp_all
  then have "parse_loop (Some (join_commas
        (map spec_render (butlast toks) @ [spec_render (last toks) @ newline]))) []
      = Some ([] @ concat (map spec_indices (butlast toks) @ [spec_indices (last toks)]))"
    by (rule parse_loop_join)
  moreover have "join_commas (map spec_render toks) @ newline
      = join_commas (map spec_render (butlast toks) @ [spec_render (last toks) @ newline])"
    using join_commas_last [OF ne, of newline] a by (simp add: map_butlast last_map)
  moreover have "concat (map spec_indices (butlast toks) @ [spec_indices (last toks)])
      = concat (map spec_indices toks)"
    by (subst (3) sp) (simp del: append_butlast_last_id)
  ultimately show "parse_shared_cpu_list True (join_commas (map spec_render toks) @ newline)
      = Some (concat (map spec_indices toks))"
    by (simp add: parse_shared_cpu_list_def)
qed

theorem parse_shared_cpu_list_tokens_witness:
  "token_in_range (Range 0 3) \<and> token_in_range (Single 8) \<and>
   join_commas (map spec_render [Range 0 3, Single 8]) = ''0-3,8'' \<and>
   parse_shared_cpu_list True (join_commas (map spec_render [Range 0 3, Single 8]))
     = Some [0, 1, 2, 3, 8] \<and>
   parse_shared_cpu_list True (join_commas (map spec_render [Range 0 3, Single 8]) @ newline)
     = Some [0, 1, 2, 3, 8]"
proof -
  have u: "[0..3] = [0, 1, 2, 3 :: int]" by code_simp
  have d: "dec 0 = ''0''" "dec 3 = ''3''" "dec 8 = ''8''" by code_simp+
  show ?thesis
    using parse_shared_cpu_list_tokens [of "[Range 0 3, Single 8]"]
    by (simp add: u d)
qed


text \<open>
  C6. A cache size text made of a number and the suffix K or k parses to that number of KiB,
  and with the suffix M or m to 1024 times the number; \<open>1024K\<close> gives 1024 and \<open>32M\<close> gives
  32768. The text may end with the newline that \<open>fgets\<close> keeps. The bounds are those of a C
  \<open>int\<close>.
\<close>

theorem parse_sizeKB_suffix:
  assumes "nl = [] \<or> nl = [CHR 0x0A]"
  shows "parse_sizeKB ''1024K'' = 1024 \<and> parse_sizeKB ''32M'' = 32768 \<and>
    (int n < 2 ^ 31 \<longrightarrow>
       parse_sizeKB (dec n @ CHR ''K'' # nl) = int n \<and>
       parse_sizeKB (dec n @ CHR ''k'' # nl) = int n) \<and>
    (int n * 1024 < 2 ^ 31 \<longrightarrow>
       parse_sizeKB (dec n @ CHR ''M'' # nl) = int n * 1024 \<and>
       parse_sizeKB (dec n @ CHR ''m'' # nl) = int n * 1024)"
proof -
  have "parse_sizeKB ''1024K'' = 1024" "parse_sizeKB ''32M'' = 32768"
    by code_simp+
  moreover have "n < 2 ^ 31" if "int n < 2 ^ 31"
    using that by (simp flip: of_nat_less_iff)
  moreover have "n < 2 ^ 31" if "int n * 1024 < 2 ^ 31"
    using that by (simp flip: of_nat_less_iff)
  ultimately show ?thesis
    using assms parse_sizeKB_K [of _ nl n] parse_sizeKB_M [of _ n nl] by simp
qed

theorem parse_sizeKB_suffix_witness:
  "parse_sizeKB (''512k'' @ [CHR 0x0A]) = 512 \<and> parse_sizeKB (''8M'' @ [CHR 0x0A]) = 8192"
proof -
  have d: "dec 512 = ''512''" "dec 8 = ''8''"
    by code_simp+
  show ?thesis
    using parse_sizeKB_suffix [of "[CHR 0x0A]" 512] parse_sizeKB_suffix [of "[CHR 0x0A]" 8]
    by (simp add: d)
qed

section \<open>Properties: instruction-set flags\<close>

lemma amd_vendor: "get_cpu_vendor cpuid_amd_all_bits = ''AuthenticAMD''"
  by (simp add: get_cpu_vendor_def cpuid_amd_all_bits_def word_bytes_def drop_bit_eq_div char_of_def bit_0)

lemma intel_vendor: "get_cpu_vendor cpuid_intel_all_bits = ''GenuineIntel''"
  by (simp add: get_cpu_vendor_def cpuid_intel_all_bits_def word_bytes_def drop_bit_eq_div char_of_def bit_0)

lemma c_string_amd: "c_string ''AuthenticAMD'' = ''AuthenticAMD''" by (simp add: c_string_def)
lemma c_string_intel: "c_string ''GenuineIntel'' = ''GenuineIntel''" by (simp add: c_string_def)


text \<open>
  C8. Whatever CPUID returns: when the vendor string is AuthenticAMD, every Intel-only flag
  (POPCNT, PCLMULQDQ, AES, FMA, F16C, XSAVE, OSXSAVE, RDRAND, RDSEED, ADX, MPX, PREFETCHWT1)
  is false, and when it is GenuineIntel, every AMD-only flag (SSE4A, XOP, FMA4,
  THREEDNOW\_PLUS) is false, also when the raw bits are set.
\<close>

theorem vendor_gating:
  "(get_cpu_vendor f = ''AuthenticAMD'' \<longrightarrow>
      \<not> POPCNT (get_supported_algorithms f) \<and> \<not> PCLMULQDQ (get_supported_algorithms f) \<and>
      \<not> AES (get_supported_algorithms f) \<and> \<not> FMA (get_supported_algorithms f) \<and>
      \<not> F16C (get_supported_algorithms f) \<and> \<not> XSAVE (get_supported_algorithms f) \<and>
      \<not> OSXSAVE (get_supported_algorithms f) \<and> \<not> RDRAND (get_supported_algorithms f) \<and>
      \<not> RDSEED (get_supported_algorithms f) \<and> \<not> ADX (get_supported_algorithms f) \<and>
      \<not> MPX (get_supported_algorithms f) \<and> \<not> PREFETCHWT1 (get_supported_algorithms f)) \<and>
   (get_cpu_vendor f = ''GenuineIntel'' \<longrightarrow>
      \<not> SSE4A (get_supported_algorithms f) \<and> \<not> XOP (get_supported_algorithms f) \<and>
      \<not> FMA4 (get_supported_algorithms f) \<and> \<not> THREEDNOW_PLUS (get_supported_algorithms f))"
proof (intro conjI impI)
  assume v: "get_cpu_vendor f = ''GenuineIntel''"
  have a: "get_supported_algorithms f
      = leaf7_intel (f 7 0) (leaf7_common (f 7 0) (leaf1_intel (f 1 0) (leaf1_common (f 1 0) alg_zero)))"
    by (simp add: get_supported_algorithms_def v c_string_intel)
  show "\<not> SSE4A (get_supported_algorithms f)" "\<not> XOP (get_supported_algorithms f)"
     "\<not> FMA4 (get_supported_algorithms f)" "\<not> THREEDNOW_PLUS (get_supported_algorithms f)"
    unfolding a by (simp_all add: leaf7_intel_def leaf7_common_def leaf1_intel_def leaf1_common_def alg_zero_def)
next
  assume v: "get_cpu_vendor f = ''AuthenticAMD''"
  have a: "get_supported_algorithms f
      = leaf_amd (f 0x80000001 0) (leaf7_common (f 7 0) (leaf1_common (f 1 0) alg_zero))"
    by (simp add: get_supported_algorithms_def v c_string_amd)
  show "\<not> POPCNT (get_supported_algorithms f)" "\<not> PCLMULQDQ (get_supported_algorithms f)"
    "\<not> AES (get_supported_algorithms f)" "\<not> FMA (get_supported_algorithms f)"
    "\<not> F16C (get_supported_algorithms f)" "\<not> XSAVE (get_supported_algorithms f)"
    "\<not> OSXSAVE (get_supported_algorithms f)" "\<not> RDRAND (get_supported_algorithms f)"
    "\<not> RDSEED (get_supported_algorithms f)" "\<not> ADX (get_supported_algorithms f)"
    "\<not> MPX (get_supported_algorithms f)" "\<not> PREFETCHWT1 (get_supported_algorithms f)"
    unfolding a by (simp_all add: leaf_amd_def leaf7_common_def leaf1_common_def alg_zero_def)
qed


theorem vendor_gating_witness:
  "get_cpu_vendor cpuid_amd_all_bits = ''AuthenticAMD'' \<and>
   bit (ecx (cpuid_amd_all_bits 1 0)) 23 \<and> \<not> POPCNT (get_supported_algorithms cpuid_amd_all_bits) \<and>
   bit (ebx (cpuid_amd_all_bits 7 0)) 18 \<and> \<not> RDSEED (get_supported_algorithms cpuid_amd_all_bits) \<and>
   get_cpu_vendor cpuid_intel_all_bits = ''GenuineIntel'' \<and>
   bit (ecx (cpuid_intel_all_bits 0x80000001 0)) 6 \<and> \<not> SSE4A (get_supported_algorithms cpuid_intel_all_bits)"
proof -
  have "bit (ecx (cpuid_amd_all_bits 1 0)) 23" "bit (ebx (cpuid_amd_all_bits 7 0)) 18"
    "bit (ecx (cpuid_intel_all_bits 0x80000001 0)) 6"
    by (simp_all add: cpuid_amd_all_bits_def cpuid_intel_all_bits_def ones_def bit_iff_odd_drop_bit drop_bit_eq_div)
  then show ?thesis
    using vendor_gating [of cpuid_amd_all_bits] vendor_gating [of cpuid_intel_all_bits]
      amd_vendor intel_vendor by simp
qed

section \<open>Properties: topology reconstruction (Linux)\<close>

lemma for_loop_append:
  "for_loop (xs @ ys) body s =
     (case for_loop xs body s of None \<Rightarrow> None | Some s' \<Rightarrow> for_loop ys body s')"
  by (induction xs arbitrary: s) (auto split: option.splits)

lemma for_loop_snoc:
  "for_loop (xs @ [x]) body s =
     (case for_loop xs body s of None \<Rightarrow> None | Some s' \<Rightarrow> body x s')"
  by (simp add: for_loop_append split: option.splits)

lemma for_loop_upt_Suc:
  "for_loop [0..<Suc n] body s =
     (case for_loop [0..<n] body s of None \<Rightarrow> None | Some s' \<Rightarrow> body n s')"
  by (simp add: for_loop_append split: option.splits)

lemma for_loop_fail:
  "x \<in> set xs \<Longrightarrow> (\<And>s. body x s = None) \<Longrightarrow> for_loop xs body s = None"
  by (induction xs arbitrary: s) (auto split: option.splits)

lemma first_seen_snoc:
  "first_seen (xs @ [x]) = (if x \<in> set xs then first_seen xs else first_seen xs @ [x])"
  by (simp add: first_seen_def)

lemma set_first_seen [simp]: "set (first_seen xs) = set xs"
  by (simp add: first_seen_def)

lemma distinct_first_seen [simp]: "distinct (first_seen xs)"
  by (simp add: first_seen_def)

lemma length_first_seen: "length (first_seen xs) \<le> length xs"
  by (simp add: first_seen_def length_remdups_leq [of "rev xs", simplified])

lemma pos_notin: "k \<notin> set us \<Longrightarrow> pos us k = length us"
  by (induction us) (auto simp: pos_def)

lemma pos_in: "k \<in> set us \<Longrightarrow> pos us k < length us \<and> us ! pos us k = k"
  by (induction us) (auto simp: pos_def)

lemma pos_nth: "distinct us \<Longrightarrow> i < length us \<Longrightarrow> pos us (us ! i) = i"
proof (induction us arbitrary: i)
  case Nil
  then show ?case by simp
next
  case (Cons u us)
  show ?case
  proof (cases i)
    case 0
    then show ?thesis by (simp add: pos_def)
  next
    case (Suc j)
    with Cons.prems have "us ! j \<noteq> u" by auto
    with Suc Cons show ?thesis by (simp add: pos_def)
  qed
qed

lemma pos_Cons: "pos (u # us) k = (if u = k then 0 else Suc (pos us k))"
  by (simp add: pos_def)

lemma find_or_end_drop:
  "idx \<le> length us \<Longrightarrow>
   find_or_end (us @ rest) (length us) key idx = Some (idx + pos (drop idx us) key)"
proof (induction "length us - idx" arbitrary: idx)
  case 0
  then have "idx = length us" by simp
  then show ?case by (simp add: find_or_end.simps [of _ _ _ "length us"] pos_def)
next
  case (Suc d)
  then have lt: "idx < length us" by simp
  then have dr: "drop idx us = us ! idx # drop (Suc idx) us"
    by (simp add: Cons_nth_drop_Suc)
  show ?case
  proof (cases "us ! idx = key")
    case True
    then show ?thesis
      using lt by (simp add: find_or_end.simps [of _ _ _ idx] nth_append dr pos_Cons)
  next
    case False
    have "find_or_end (us @ rest) (length us) key (Suc idx)
        = Some (Suc idx + pos (drop (Suc idx) us) key)"
      using Suc lt by (intro Suc.hyps(1)) auto
    then show ?thesis
      using lt False by (simp add: find_or_end.simps [of _ _ _ idx] nth_append dr pos_Cons)
  qed
qed

lemma find_or_end_pos: "find_or_end (us @ rest) (length us) key 0 = Some (pos us key)"
  using find_or_end_drop [of 0 us rest key] by simp

lemma find_existing_drop:
  "idx \<le> length us \<Longrightarrow> key \<in> set (drop idx us) \<Longrightarrow>
   find_existing (us @ rest) key idx = Some (idx + pos (drop idx us) key)"
proof (induction "length us - idx" arbitrary: idx)
  case 0
  then show ?case by simp
next
  case (Suc d)
  then have lt: "idx < length us" by simp
  then have dr: "drop idx us = us ! idx # drop (Suc idx) us"
    by (simp add: Cons_nth_drop_Suc)
  show ?case
  proof (cases "us ! idx = key")
    case True
    then show ?thesis
      using lt by (simp add: find_existing.simps [of _ _ idx] nth_append dr pos_Cons)
  next
    case False
    with Suc.prems dr have "key \<in> set (drop (Suc idx) us)" by auto
    then have "find_existing (us @ rest) key (Suc idx)
        = Some (Suc idx + pos (drop (Suc idx) us) key)"
      using Suc lt by (intro Suc.hyps(1)) auto
    then show ?thesis
      using lt False by (simp add: find_existing.simps [of _ _ idx] nth_append dr pos_Cons)
  qed
qed

lemma find_existing_pos:
  "key \<in> set us \<Longrightarrow> find_existing (us @ rest) key 0 = Some (pos us key)"
  using find_existing_drop [of 0 us key rest] by simp


lemma members_Suc: "members K (Suc n) k = members K n k @ (if K n = k then [n] else [])"
  by (simp add: members_def)

lemma members_empty: "k \<notin> set (map K [0..<n]) \<Longrightarrow> members K n k = []"
  by (auto simp: members_def filter_empty_conv)

lemma temp_entry_other: "K n \<noteq> k \<Longrightarrow> temp_entry K (Suc n) k = temp_entry K n k"
  by (simp add: temp_entry_def members_Suc)

lemma temp_entry_same:
  "temp_entry K (Suc n) (K n)
     = (temp_entry K n (K n))\<lparr>logical_count := logical_count (temp_entry K n (K n)) + 1\<rparr>"
  by (simp add: temp_entry_def members_Suc)

lemma temp_entry_new:
  "K n \<notin> set (map K [0..<n]) \<Longrightarrow>
   temp_entry K (Suc n) (K n)
     = \<lparr>id_pc = K n, type_pc = CORE_TYPE_UNKNOWN, logical_ids = None, logical_count = 1\<rparr>"
  by (simp add: temp_entry_def members_Suc members_empty)

lemma update_first_free:
  "0 < m \<Longrightarrow> (xs @ replicate m z)[length xs := v] = (xs @ [v]) @ replicate (m - 1) z"
  by (cases m) (simp_all add: list_update_append)

lemma nth_after: "((xs @ [v]) @ r) ! length xs = v"
  by (simp add: nth_append)

lemma update_after: "((xs @ [v]) @ r)[length xs := w] = (xs @ [w]) @ r"
  by (simp add: list_update_append)

lemma map_update_at:
  assumes "distinct us" "i < length us" "\<And>k. k \<in> set us \<Longrightarrow> k \<noteq> us ! i \<Longrightarrow> g k = f k"
  shows "(map f us)[i := g (us ! i)] = map g us"
proof (rule nth_equalityI)
  show "length ((map f us)[i := g (us ! i)]) = length (map g us)" by simp
next
  fix j assume "j < length ((map f us)[i := g (us ! i)])"
  then have j: "j < length us" by simp
  show "(map f us)[i := g (us ! i)] ! j = map g us ! j"
  proof (cases "j = i")
    case True
    then show ?thesis using j by simp
  next
    case False
    with assms(1,2) j have "us ! j \<noteq> us ! i" by (simp add: nth_eq_iff_index_eq)
    then show ?thesis using j False assms(3) by simp
  qed
qed

lemma discover_body_new:
  assumes "topology_key env n = Some k" "find_or_end keys unique k 0 = Some unique"
    "unique < length keys" "unique < length temp"
  shows "discover_body env n (keys, temp, unique)
     = Some (keys[unique := k],
             temp[unique := (temp ! unique)\<lparr>id_pc := k, type_pc := CORE_TYPE_UNKNOWN,
                                              logical_count := 1\<rparr>],
             Suc unique)"
  using assms by (simp add: discover_body_def)

lemma discover_body_old:
  assumes "topology_key env n = Some k" "find_or_end keys unique k 0 = Some idx"
    "idx \<noteq> unique" "idx < length temp"
  shows "discover_body env n (keys, temp, unique)
     = Some (keys, temp[idx := (temp ! idx)\<lparr>logical_count := logical_count (temp ! idx) + 1\<rparr>],
             unique)"
  using assms by (simp add: discover_body_def)

lemma discover_step:
  assumes key: "topology_key env n = Some (K n)" and n: "n < L"
  shows "discover_body env n (discovered K L n) = Some (discovered K L (Suc n))"
proof -
  define us where "us = first_seen (map K [0..<n])"
  define U where "U = length us"
  have U: "U \<le> n" using length_first_seen [of "map K [0..<n]"] by (simp add: U_def us_def)
  have d: "distinct us" by (simp add: us_def)
  have su: "set us = set (map K [0..<n])" by (simp add: us_def)
  have st: "discovered K L n
      = (us @ replicate (L - U) 0, map (temp_entry K n) us @ replicate (L - U) core_zero, U)"
    by (simp add: discovered_def us_def U_def Let_def)
  have fs: "first_seen (map K [0..<n] @ [K n]) = (if K n \<in> set us then us else us @ [K n])"
    by (simp add: first_seen_snoc us_def)
  have idx: "find_or_end (us @ replicate (L - U) 0) U (K n) 0 = Some (pos us (K n))"
    unfolding U_def by (rule find_or_end_pos)
  show ?thesis
  proof (cases "K n \<in> set us")
    case True
    then have p: "pos us (K n) < U" "us ! pos us (K n) = K n"
      using pos_in [of "K n" us] by (simp_all add: U_def)
    have upd: "(map (temp_entry K n) us)[pos us (K n) := temp_entry K (Suc n) (us ! pos us (K n))]
        = map (temp_entry K (Suc n)) us"
      using d p by (intro map_update_at) (auto simp: U_def temp_entry_other)
    have new: "discovered K L (Suc n)
        = (us @ replicate (L - U) 0, map (temp_entry K (Suc n)) us @ replicate (L - U) core_zero, U)"
      using True by (simp add: discovered_def fs U_def Let_def)
    have "discover_body env n (discovered K L n)
        = Some (us @ replicate (L - U) 0,
                (map (temp_entry K n) us @ replicate (L - U) core_zero)
                  [pos us (K n) := temp_entry K (Suc n) (K n)], U)"
      using p n U
      by (simp add: discover_body_def st key idx nth_append U_def [symmetric] temp_entry_same)
    also have "(map (temp_entry K n) us @ replicate (L - U) core_zero)
                  [pos us (K n) := temp_entry K (Suc n) (K n)]
        = map (temp_entry K (Suc n)) us @ replicate (L - U) core_zero"
      using p upd by (simp add: list_update_append U_def)
    finally show ?thesis by (simp add: new)
  next
    case False
    then have p: "pos us (K n) = U" by (simp add: pos_notin U_def)
    have notin: "K n \<notin> set (map K [0..<n])" using False su by simp
    have free: "0 < L - U" using U n by simp
    have same: "map (temp_entry K (Suc n)) us = map (temp_entry K n) us"
    proof (rule map_cong [OF refl])
      fix k assume "k \<in> set us"
      with False have "K n \<noteq> k" by auto
      then show "temp_entry K (Suc n) k = temp_entry K n k" by (rule temp_entry_other)
    qed
    have new: "discovered K L (Suc n)
        = ((us @ [K n]) @ replicate (L - U - 1) 0,
           (map (temp_entry K n) us @ [temp_entry K (Suc n) (K n)]) @ replicate (L - U - 1) core_zero,
           Suc U)"
      using False by (simp add: discovered_def fs U_def Let_def same)
    have k1: "(us @ replicate (L - U) 0)[U := K n] = (us @ [K n]) @ replicate (L - U - 1) 0"
      unfolding U_def using free by (intro update_first_free) (simp add: U_def)
    have t1: "(map (temp_entry K n) us @ replicate (L - U) core_zero)[U := v]
        = (map (temp_entry K n) us @ [v]) @ replicate (L - U - 1) core_zero" for v
      using update_first_free [of "L - U" "map (temp_entry K n) us" core_zero v] free
      by (simp add: U_def)
    have z: "(map (temp_entry K n) us @ replicate (L - U) core_zero) ! U = core_zero"
      using free by (simp add: nth_append U_def)
    have len: "U < length (us @ replicate (L - U) (0::int))"
      "U < length (map (temp_entry K n) us @ replicate (L - U) core_zero)"
      using free by (simp_all add: U_def)
    have e: "core_zero\<lparr>id_pc := K n, type_pc := CORE_TYPE_UNKNOWN, logical_count := 1\<rparr>
        = temp_entry K (Suc n) (K n)"
      by (simp add: temp_entry_new [OF notin] core_zero_def)
    have "discover_body env n (discovered K L n)
        = Some ((us @ replicate (L - U) 0)[U := K n],
                (map (temp_entry K n) us @ replicate (L - U) core_zero)
                  [U := ((map (temp_entry K n) us @ replicate (L - U) core_zero) ! U)
                     \<lparr>id_pc := K n, type_pc := CORE_TYPE_UNKNOWN, logical_count := 1\<rparr>],
                Suc U)"
      unfolding st using key idx len by (intro discover_body_new) (simp_all add: p)
    also have "\<dots> = Some ((us @ [K n]) @ replicate (L - U - 1) 0,
                (map (temp_entry K n) us @ [temp_entry K (Suc n) (K n)]) @ replicate (L - U - 1) core_zero,
                Suc U)"
      by (simp only: z e k1 t1)
    finally have "discover_body env n (discovered K L n)
        = Some ((us @ [K n]) @ replicate (L - U - 1) 0,
                (map (temp_entry K n) us @ [temp_entry K (Suc n) (K n)]) @ replicate (L - U - 1) core_zero,
                Suc U)" .
    then show ?thesis by (simp add: new)
  qed
qed


lemma members_split:
  "n \<le> L \<Longrightarrow> members K L k = members K n k @ filter (\<lambda>c. K c = k) [n..<L]"
proof -
  assume "n \<le> L"
  then have "[0..<L] = [0..<n] @ [n..<L]"
    by (metis le_add_diff_inverse upt_add_eq_append zero_le)
  then show ?thesis by (simp add: members_def)
qed

lemma members_mono: "n \<le> L \<Longrightarrow> length (members K n k) \<le> length (members K L k)"
  by (simp add: members_split [of n L])

lemma members_lt:
  assumes "n < L"
  shows "length (members K n (K n)) < length (members K L (K n))"
proof -
  have "length (members K (Suc n) (K n)) \<le> length (members K L (K n))"
    using assms by (intro members_mono) simp
  then show ?thesis by (simp add: members_Suc)
qed

lemma init_core_entry:
  assumes "i < length us"
  shows "init_core env (map (temp_entry K L) us @ rest) i = core_entry env K L 0 us i"
  using assms
  by (simp add: init_core_def core_entry_def temp_entry_def malloc_ints_def nth_append members_def)

lemma assign_body_at:
  assumes "topology_key env n = Some k" "find_existing keys k 0 = Some idx" "idx < length cs"
  shows "assign_body env keys n cs =
     (case logical_ids (cs ! idx) of
        None \<Rightarrow> None
      | Some ids \<Rightarrow>
          if 0 \<le> logical_count (cs ! idx) \<and> nat (logical_count (cs ! idx)) < length ids then
            Some (cs[idx := (cs ! idx)\<lparr>
                    logical_ids := Some (ids[nat (logical_count (cs ! idx)) := int n]),
                    logical_count := logical_count (cs ! idx) + 1\<rparr>])
          else None)"
  using assms by (simp add: assign_body_def)

lemma fill_next:
  "length xs < m \<Longrightarrow>
   (xs @ replicate (m - length xs) z)[length xs := v] = (xs @ [v]) @ replicate (m - Suc (length xs)) z"
  using update_first_free [of "m - length xs" xs z v] by simp

lemma assign_step:
  assumes key: "topology_key env n = Some (K n)" and n: "n < L"
    and us: "us = first_seen (map K [0..<L])"
  shows "assign_body env (us @ rest) n (map (core_entry env K L n us) [0..<length us])
     = (if alloc_ok env (Alloc_logical_ids (pos us (K n)))
        then Some (map (core_entry env K L (Suc n) us) [0..<length us]) else None)"
proof -
  define i where "i = pos us (K n)"
  have d: "distinct us" by (simp add: us)
  have "K n \<in> set us" using n by (simp add: us)
  then have i: "i < length us" "us ! i = K n"
    using pos_in [of "K n" us] by (simp_all add: i_def)
  have fe: "find_existing (us @ rest) (K n) 0 = Some i"
    unfolding i_def using \<open>K n \<in> set us\<close> by (rule find_existing_pos)
  have body: "assign_body env (us @ rest) n cs =
     (case logical_ids (cs ! i) of
        None \<Rightarrow> None
      | Some ids \<Rightarrow>
          if 0 \<le> logical_count (cs ! i) \<and> nat (logical_count (cs ! i)) < length ids then
            Some (cs[i := (cs ! i)\<lparr>
                    logical_ids := Some (ids[nat (logical_count (cs ! i)) := int n]),
                    logical_count := logical_count (cs ! i) + 1\<rparr>])
          else None)" if "length cs = length us" for cs
    using key fe i(1) that by (intro assign_body_at) simp_all
  let ?cs = "map (core_entry env K L n us) [0..<length us]"
  have at: "?cs ! i = core_entry env K L n us i" using i by simp
  show ?thesis
  proof (cases "alloc_ok env (Alloc_logical_ids i)")
    case False
    then have "logical_ids (?cs ! i) = None" by (simp add: at core_entry_def)
    then show ?thesis using False body [of ?cs] by (simp add: i_def)
  next
    case True
    define xs where "xs = map int (members K n (K n))"
    define m where "m = length (members K L (K n))"
    have lx: "length xs < m" using members_lt [OF n, of K] by (simp add: xs_def m_def)
    have ids: "logical_ids (?cs ! i) = Some (xs @ replicate (m - length xs) (stale env))"
      and lc: "logical_count (?cs ! i) = int (length xs)"
      using True by (simp_all add: at core_entry_def i xs_def m_def)
    have new: "(?cs ! i)\<lparr>logical_ids := Some ((xs @ [int n]) @ replicate (m - Suc (length xs)) (stale env)),
                        logical_count := int (length xs) + 1\<rparr>
        = core_entry env K L (Suc n) us ([0..<length us] ! i)"
      using True i by (simp add: at core_entry_def members_Suc xs_def m_def)
    have other: "core_entry env K L (Suc n) us j = core_entry env K L n us j"
      if "j \<in> set [0..<length us]" "j \<noteq> [0..<length us] ! i" for j
    proof -
      from that i have "j < length us" "j \<noteq> i" by simp_all
      with d i have "us ! j \<noteq> K n" by (metis nth_eq_iff_index_eq)
      then show ?thesis by (simp add: core_entry_def members_Suc)
    qed
    have "assign_body env (us @ rest) n ?cs
        = Some (?cs[i := (?cs ! i)\<lparr>
                    logical_ids := Some ((xs @ replicate (m - length xs) (stale env))[length xs := int n]),
                    logical_count := int (length xs) + 1\<rparr>])"
      using lx by (simp add: body [of ?cs] ids lc)
    also have "(xs @ replicate (m - length xs) (stale env))[length xs := int n]
        = (xs @ [int n]) @ replicate (m - Suc (length xs)) (stale env)"
      using lx by (rule fill_next)
    also have "?cs[i := (?cs ! i)\<lparr>logical_ids := Some ((xs @ [int n]) @ replicate (m - Suc (length xs)) (stale env)),
                        logical_count := int (length xs) + 1\<rparr>]
        = map (core_entry env K L (Suc n) us) [0..<length us]"
      unfolding new using i other by (intro map_update_at) simp_all
    finally show ?thesis using True by (simp add: i_def)
  qed
qed


lemma discovered_0: "discovered K L 0 = (replicate L 0, replicate L core_zero, 0)"
  by (simp add: discovered_def first_seen_def)

lemma discover_body_fail: "topology_key env c = None \<Longrightarrow> discover_body env c st = None"
  by (cases st) (simp add: discover_body_def)

lemma discover_loop:
  assumes "\<And>c. c < n \<Longrightarrow> topology_key env c = Some (K c)" "n \<le> L"
  shows "for_loop [0..<n] (discover_body env) (discovered K L 0) = Some (discovered K L n)"
  using assms
proof (induction n)
  case 0
  then show ?case by simp
next
  case (Suc n)
  then have "for_loop [0..<n] (discover_body env) (discovered K L 0) = Some (discovered K L n)"
    by simp
  moreover have "discover_body env n (discovered K L n) = Some (discovered K L (Suc n))"
    using Suc.prems by (intro discover_step) simp_all
  ultimately show ?case by (simp add: for_loop_snoc)
qed

lemma assign_loop:
  assumes "\<And>c. c < n \<Longrightarrow> topology_key env c = Some (K c)" "n \<le> L"
    and "us = first_seen (map K [0..<L])"
  shows "for_loop [0..<n] (assign_body env (us @ rest))
           (map (core_entry env K L 0 us) [0..<length us])
     = (if \<forall>c<n. alloc_ok env (Alloc_logical_ids (pos us (K c)))
        then Some (map (core_entry env K L n us) [0..<length us]) else None)"
  using assms(1,2)
proof (induction n)
  case 0
  then show ?case by simp
next
  case (Suc n)
  have ih: "for_loop [0..<n] (assign_body env (us @ rest))
           (map (core_entry env K L 0 us) [0..<length us])
     = (if \<forall>c<n. alloc_ok env (Alloc_logical_ids (pos us (K c)))
        then Some (map (core_entry env K L n us) [0..<length us]) else None)"
    using Suc by simp
  have st: "assign_body env (us @ rest) n (map (core_entry env K L n us) [0..<length us])
     = (if alloc_ok env (Alloc_logical_ids (pos us (K n)))
        then Some (map (core_entry env K L (Suc n) us) [0..<length us]) else None)"
    using Suc.prems assms(3) by (intro assign_step) simp_all
  show ?case
    unfolding for_loop_upt_Suc ih using st by (auto simp: less_Suc_eq)
qed

lemma all_allocs:
  assumes "us = first_seen (map K [0..<L])"
  shows "(\<forall>c<L. alloc_ok env (Alloc_logical_ids (pos us (K c))))
     \<longleftrightarrow> (\<forall>i<length us. alloc_ok env (Alloc_logical_ids i))"
proof
  assume a: "\<forall>c<L. alloc_ok env (Alloc_logical_ids (pos us (K c)))"
  show "\<forall>i<length us. alloc_ok env (Alloc_logical_ids i)"
  proof (intro allI impI)
    fix i assume i: "i < length us"
    then have "us ! i \<in> set (map K [0..<L])" using assms by (metis nth_mem set_first_seen)
    then obtain c where c: "c < L" "K c = us ! i" by auto
    have "pos us (us ! i) = i" using i assms by (intro pos_nth) simp_all
    with a c show "alloc_ok env (Alloc_logical_ids i)" by metis
  qed
next
  assume a: "\<forall>i<length us. alloc_ok env (Alloc_logical_ids i)"
  show "\<forall>c<L. alloc_ok env (Alloc_logical_ids (pos us (K c)))"
  proof (intro allI impI)
    fix c assume "c < L"
    then have "K c \<in> set us" using assms by simp
    then have "pos us (K c) < length us" using pos_in by blast
    with a show "alloc_ok env (Alloc_logical_ids (pos us (K c)))" by simp
  qed
qed

lemma final_cores:
  assumes "\<forall>i<length us. alloc_ok env (Alloc_logical_ids i)"
  shows "map (core_entry env K L L us) [0..<length us] = map (final_core K L) us"
  using assms by (intro nth_equalityI) (simp_all add: core_entry_def final_core_def)


lemma get_core_topology_eq:
  assumes nn: "0 \<le> logical_core_count data"
    and keys: "\<And>c. c < nat (logical_core_count data) \<Longrightarrow> topology_key env c \<noteq> None"
  shows "get_core_topology env data =
     (if \<not> (alloc_ok env Alloc_keys \<and> alloc_ok env Alloc_temp) then Some (203, data)
      else if \<not> alloc_ok env Alloc_cores then
        Some (203, data\<lparr>physical_core_count := int (length (seen_keys env data)), cores := None\<rparr>)
      else if \<forall>i<length (seen_keys env data). alloc_ok env (Alloc_logical_ids i) then
        Some (0, data\<lparr>physical_core_count := int (length (seen_keys env data)),
                       cores := Some (topology_cores env data)\<rparr>)
      else None)"
proof -
  define L where "L = nat (logical_core_count data)"
  define K where "K = cpu_key env"
  define us where "us = first_seen (map K [0..<L])"
  define temp where "temp = map (temp_entry K L) us @ replicate (L - length us) core_zero"
  have sk: "seen_keys env data = us" by (simp add: seen_keys_def us_def K_def L_def)
  have tc: "topology_cores env data = map (final_core K L) us"
    by (simp add: topology_cores_def sk K_def L_def)
  have k: "topology_key env c = Some (K c)" if "c < L" for c
    using keys [of c] that by (auto simp: K_def cpu_key_def L_def)
  have p1: "for_loop [0..<L] (discover_body env) (replicate L 0, replicate L core_zero, 0)
      = Some (us @ replicate (L - length us) 0, temp, length us)"
    using discover_loop [of L env K L] k
    by (simp add: discovered_0) (simp add: discovered_def us_def temp_def Let_def)
  have ini: "map (init_core env temp) [0..<length us] = map (core_entry env K L 0 us) [0..<length us]"
    unfolding temp_def by (intro map_cong refl init_core_entry) simp
  have p2: "for_loop [0..<L] (assign_body env (us @ replicate (L - length us) 0))
           (map (init_core env temp) [0..<length us])
     = (if \<forall>i<length us. alloc_ok env (Alloc_logical_ids i)
        then Some (map (final_core K L) us) else None)"
    unfolding ini using assign_loop [of L env K L us "replicate (L - length us) 0"] k
      all_allocs [of us K L env] final_cores [of us env K L]
    by (auto simp: us_def)
  show ?thesis
  proof (cases "alloc_ok env Alloc_keys \<and> alloc_ok env Alloc_temp")
    case False
    then show ?thesis by (auto simp: get_core_topology_def calloc_def Let_def)
  next
    case True
    then show ?thesis
      using nn
      by (auto simp add: get_core_topology_def calloc_def Let_def L_def [symmetric] p1 p2 sk tc)
  qed
qed

lemma get_core_topology_negative:
  "logical_core_count data < 0 \<Longrightarrow> get_core_topology env data = Some (203, data)"
  by (simp add: get_core_topology_def calloc_def Let_def)

lemma get_core_topology_unreadable:
  assumes "c < nat (logical_core_count data)" "topology_key env c = None"
  shows "get_core_topology env data = Some (203, data) \<or> get_core_topology env data = None"
proof -
  have "for_loop [0..<nat (logical_core_count data)] (discover_body env) st = None" for st
    using assms by (intro for_loop_fail [of c]) (simp_all add: discover_body_fail)
  then show ?thesis
    by (auto simp: get_core_topology_def calloc_def Let_def)
qed

lemma get_core_topology_success:
  assumes "get_core_topology env data = Some (0, data')"
  shows "0 \<le> logical_core_count data \<and>
     (\<forall>c<nat (logical_core_count data). topology_key env c \<noteq> None) \<and>
     data' = data\<lparr>physical_core_count := int (length (seen_keys env data)),
                   cores := Some (topology_cores env data)\<rparr>"
proof -
  have nn: "0 \<le> logical_core_count data"
    using assms get_core_topology_negative [of data env] by (cases "0 \<le> logical_core_count data") auto
  have keys: "topology_key env c \<noteq> None" if "c < nat (logical_core_count data)" for c
    using assms get_core_topology_unreadable [OF that, of env] by (cases "topology_key env c") auto
  show ?thesis
    using assms nn keys get_core_topology_eq [OF nn keys]
    by (auto split: if_splits)
qed

section \<open>Properties: topology reconstruction (both builds)\<close>

lemma mset_filter_disjoint:
  "(\<And>x. x \<in> set xs \<Longrightarrow> \<not> (P x \<and> Q x)) \<Longrightarrow>
   mset (filter P xs) + mset (filter Q xs) = mset (filter (\<lambda>x. P x \<or> Q x) xs)"
  by (induction xs) auto

lemma mset_by_key:
  "distinct us \<Longrightarrow>
   mset (concat (map (\<lambda>k. filter (\<lambda>c. K c = k) xs) us)) = mset (filter (\<lambda>c. K c \<in> set us) xs)"
proof (induction us)
  case Nil
  then show ?case by simp
next
  case (Cons k us)
  have "mset (concat (map (\<lambda>k. filter (\<lambda>c. K c = k) xs) (k # us)))
      = mset (filter (\<lambda>c. K c = k) xs) + mset (filter (\<lambda>c. K c \<in> set us) xs)"
    using Cons by simp
  also have "\<dots> = mset (filter (\<lambda>c. K c = k \<or> K c \<in> set us) xs)"
    using Cons.prems by (intro mset_filter_disjoint) auto
  also have "\<dots> = mset (filter (\<lambda>c. K c \<in> set (k # us)) xs)"
    by (intro arg_cong [where f = mset] filter_cong) auto
  finally show ?case .
qed

lemma mset_members:
  "distinct us \<Longrightarrow>
   mset (concat (map (members K L) us)) = mset (filter (\<lambda>c. K c \<in> set us) [0..<L])"
  using mset_by_key [of us K "[0..<L]"] by (simp only: members_def [abs_def])

lemma mset_all_members:
  "mset (concat (map (members K L) (first_seen (map K [0..<L])))) = mset [0..<L]"
proof -
  have "filter (\<lambda>c. K c \<in> set (first_seen (map K [0..<L]))) [0..<L] = [0..<L]"
    by (intro filter_True) simp
  then show ?thesis using mset_members [of "first_seen (map K [0..<L])" K L] by simp
qed

lemma ids_of_final [simp]: "ids_of (final_core K L k) = map int (members K L k)"
  by (simp add: ids_of_def final_core_def)

lemma concat_ids_linux:
  "concat (map ids_of (topology_cores env data))
     = map int (concat (map (members (cpu_key env) (nat (logical_core_count data)))
                            (seen_keys env data)))"
  by (simp add: topology_cores_def map_concat comp_def)

lemma mset_ids_linux:
  "mset (concat (map ids_of (topology_cores env data)))
     = mset (map int [0..<nat (logical_core_count data)])"
  unfolding concat_ids_linux seen_keys_def
  using mset_all_members [of "cpu_key env" "nat (logical_core_count data)"]
  by (metis mset_map)

lemma int_upt_set: "set (map int [0..<nat N]) = {0..<N}"
proof (intro set_eqI iffI)
  fix x assume "x \<in> set (map int [0..<nat N])"
  then show "x \<in> {0..<N}" by auto
next
  fix x assume "x \<in> {0..<N}"
  then have "nat x \<in> set [0..<nat N]" "int (nat x) = x" by auto
  then show "x \<in> set (map int [0..<nat N])" by (metis image_eqI set_map)
qed

lemma partition_from_mset:
  assumes "mset xs = mset (map int [0..<nat N])"
  shows "set xs = {0..<N} \<and> distinct xs"
proof -
  have "distinct (map int [0..<nat N])" by (simp add: distinct_map)
  then have "distinct xs" using assms(1) by (metis mset_eq_imp_distinct_iff)
  moreover have "set xs = set (map int [0..<nat N])" using assms(1) by (rule mset_eq_setD)
  ultimately show ?thesis using int_upt_set [of N] by simp
qed

lemma partition_int_iff:
  "(set (map int xs) = {0..<N} \<and> distinct (map int xs))
     \<longleftrightarrow> (set xs = {0..<nat N} \<and> distinct xs)"
proof -
  have "set (map int xs) = {0..<N} \<longleftrightarrow> int ` set xs = int ` {0..<nat N}"
    using int_upt_set [of N] by simp
  also have "\<dots> \<longleftrightarrow> set xs = {0..<nat N}"
    by (rule inj_image_eq_iff) simp
  finally show ?thesis by (simp add: distinct_map)
qed

lemma fold_count:
  "fold (\<lambda>b count. if P b then count + 1 else count) xs (a :: int) = a + int (length (filter P xs))"
  by (induction xs arbitrary: a) simp_all

lemma count_bits_eq: "count_bits m = int (length (mask_bits m))"
  by (simp add: count_bits_def mask_bits_def fold_count)

lemma collect_loop_block:
  "length (filter (bit m) xs) \<le> r \<Longrightarrow>
   for_loop xs (collect_body m) (Some (pre @ replicate r z), int (length pre))
     = Some (Some ((pre @ map int (filter (bit m) xs)) @ replicate (r - length (filter (bit m) xs)) z),
             int (length pre + length (filter (bit m) xs)))"
proof (induction xs arbitrary: pre r)
  case Nil
  then show ?case by simp
next
  case (Cons x xs)
  show ?case
  proof (cases "bit m x")
    case False
    then show ?thesis using Cons by (simp add: collect_body_def)
  next
    case True
    with Cons.prems have r: "0 < r" "length (filter (bit m) xs) \<le> r - 1" by simp_all
    have step: "collect_body m x (Some (pre @ replicate r z), int (length pre))
        = Some (Some ((pre @ [int x]) @ replicate (r - 1) z), int (length (pre @ [int x])))"
      using True r update_first_free [of r pre z "int x"] by (simp add: collect_body_def)
    have "for_loop xs (collect_body m) (Some ((pre @ [int x]) @ replicate (r - 1) z), int (length (pre @ [int x])))
        = Some (Some (((pre @ [int x]) @ map int (filter (bit m) xs))
                        @ replicate (r - 1 - length (filter (bit m) xs)) z),
                int (length (pre @ [int x]) + length (filter (bit m) xs)))"
      using r(2) by (rule Cons.IH)
    then show ?thesis using True step by simp
  qed
qed

lemma collect_loop_null:
  "for_loop xs (collect_body m) (None, idx)
     = (if filter (bit m) xs = [] then Some (None, idx) else None)"
  by (induction xs) (simp_all add: collect_body_def)

lemma win_core_eq:
  "win_core env i m =
     (if walloc_ok env (WAlloc_logical_ids i) then
        Some \<lparr>id_pc = int i, type_pc = CORE_TYPE_UNKNOWN,
              logical_ids = Some (map int (mask_bits m)),
              logical_count = int (length (mask_bits m))\<rparr>
      else if mask_bits m = [] then
        Some \<lparr>id_pc = int i, type_pc = CORE_TYPE_UNKNOWN, logical_ids = None, logical_count = 0\<rparr>
      else None)"
proof (cases "walloc_ok env (WAlloc_logical_ids i)")
  case True
  have "for_loop [0..<64] (collect_body m) (Some ([] @ replicate (length (mask_bits m)) (wstale env)), int (length ([] :: int list)))
      = Some (Some (([] @ map int (filter (bit m) [0..<64]))
                @ replicate (length (mask_bits m) - length (filter (bit m) [0..<64])) (wstale env)),
              int (length ([] :: int list) + length (filter (bit m) [0..<64])))"
    by (rule collect_loop_block) (simp add: mask_bits_def)
  then show ?thesis
    using True by (simp add: win_core_def count_bits_eq mask_bits_def)
next
  case False
  then show ?thesis
    using collect_loop_null [of "[0..<64]" m 0]
    by (simp add: win_core_def count_bits_eq mask_bits_def)
qed

lemma win_core_Some:
  assumes "win_core env i m = Some c"
  shows "ids_of c = map int (mask_bits m) \<and> logical_count c = int (length (ids_of c)) \<and>
         id_pc c = int i \<and> type_pc c = CORE_TYPE_UNKNOWN"
  using assms unfolding win_core_eq by (auto simp: ids_of_def split: if_splits)

lemma win_loop:
  assumes "for_loop [0..<n] (\<lambda>i cs. map_option (\<lambda>c. cs[i := c]) (win_core env i (ms ! i))) cs0
      = Some cs" "n \<le> length cs0"
  shows "length cs = length cs0 \<and> (\<forall>i<n. win_core env i (ms ! i) = Some (cs ! i)) \<and>
         (\<forall>i<length cs0. n \<le> i \<longrightarrow> cs ! i = cs0 ! i)"
  using assms
proof (induction n arbitrary: cs)
  case 0
  then show ?case by simp
next
  case (Suc n)
  from Suc.prems(1) obtain cs' c where
    a: "for_loop [0..<n] (\<lambda>i cs. map_option (\<lambda>c. cs[i := c]) (win_core env i (ms ! i))) cs0 = Some cs'"
    and b: "win_core env n (ms ! n) = Some c" and c: "cs = cs'[n := c]"
    by (auto simp: for_loop_snoc split: option.splits)
  have ih: "length cs' = length cs0" "\<forall>i<n. win_core env i (ms ! i) = Some (cs' ! i)"
    "\<forall>i<length cs0. n \<le> i \<longrightarrow> cs' ! i = cs0 ! i"
    using Suc.IH [OF a] Suc.prems(2) by simp_all
  show ?case
    using ih b c Suc.prems(2) by (auto simp: less_Suc_eq nth_list_update)
qed

lemma get_core_topology_win_success:
  assumes "get_core_topology_win env data = Some (0, data')"
  shows "cores data' \<noteq> None \<and> length (cores_of data') = length (core_masks env) \<and>
     physical_core_count data' = int (length (core_masks env)) \<and>
     logical_core_count data' = logical_core_count data \<and>
     (\<forall>i<length (core_masks env). win_core env i (core_masks env ! i) = Some (cores_of data' ! i))"
proof -
  from assms obtain cs where
    l: "for_loop [0..<length (core_masks env)]
          (\<lambda>i cs. map_option (\<lambda>c. cs[i := c]) (win_core env i (core_masks env ! i)))
          (replicate (length (core_masks env)) core_zero) = Some cs"
    and d: "data' = data\<lparr>physical_core_count := int (length (core_masks env)), cores := Some cs\<rparr>"
    by (auto simp: get_core_topology_win_def Let_def split: if_splits option.splits bind_splits)
  show ?thesis
    using win_loop [OF l] by (simp add: d cores_of_def)
qed


lemma all_ids_win:
  assumes "get_core_topology_win env data = Some (0, data')"
  shows "all_ids data' = map int (concat (map mask_bits (core_masks env)))"
proof -
  have l: "length (cores_of data') = length (core_masks env)"
    and c: "\<And>i. i < length (core_masks env) \<Longrightarrow>
              win_core env i (core_masks env ! i) = Some (cores_of data' ! i)"
    using get_core_topology_win_success [OF assms] by simp_all
  have "map ids_of (cores_of data') = map (\<lambda>m. map int (mask_bits m)) (core_masks env)"
  proof (rule nth_equalityI)
    show "length (map ids_of (cores_of data')) = length (map (\<lambda>m. map int (mask_bits m)) (core_masks env))"
      by (simp add: l)
  next
    fix i assume "i < length (map ids_of (cores_of data'))"
    then have i: "i < length (core_masks env)" by (simp add: l)
    then show "map ids_of (cores_of data') ! i = map (\<lambda>m. map int (mask_bits m)) (core_masks env) ! i"
      using win_core_Some [OF c [OF i]] by (simp add: l)
  qed
  then show ?thesis by (simp add: all_ids_def map_concat comp_def)
qed

lemma all_ids_linux:
  assumes "get_core_topology env data = Some (0, data')"
  shows "set (all_ids data') = {0..<logical_core_count data'} \<and> distinct (all_ids data')"
proof -
  have d: "data' = data\<lparr>physical_core_count := int (length (seen_keys env data)),
                         cores := Some (topology_cores env data)\<rparr>"
    using get_core_topology_success [OF assms] by simp
  have "mset (all_ids data') = mset (map int [0..<nat (logical_core_count data)])"
    by (simp add: d all_ids_def cores_of_def mset_ids_linux)
  then show ?thesis using partition_from_mset [of "all_ids data'"] by (simp add: d)
qed




lemma win_loop_total:
  assumes "\<And>i. i < n \<Longrightarrow> win_core env i (ms ! i) = Some (f i)" "n \<le> length cs0"
  shows "for_loop [0..<n] (\<lambda>i cs. map_option (\<lambda>c. cs[i := c]) (win_core env i (ms ! i))) cs0
      = Some (map f [0..<n] @ drop n cs0)"
  using assms
proof (induction n)
  case 0
  then show ?case by simp
next
  case (Suc n)
  have ih: "for_loop [0..<n] (\<lambda>i cs. map_option (\<lambda>c. cs[i := c]) (win_core env i (ms ! i))) cs0
      = Some (map f [0..<n] @ drop n cs0)"
    using Suc by simp
  have "(map f [0..<n] @ drop n cs0)[n := f n] = map f [0..<n] @ (drop n cs0)[0 := f n]"
    by (simp add: list_update_append)
  also have "(drop n cs0)[0 := f n] = f n # drop (Suc n) cs0"
  proof -
    have "n < length cs0" using Suc.prems(2) by simp
    then have "drop n cs0 = cs0 ! n # drop (Suc n) cs0" by (simp add: Cons_nth_drop_Suc)
    then show ?thesis by simp
  qed
  finally have "(map f [0..<n] @ drop n cs0)[n := f n] = map f [0..<Suc n] @ drop (Suc n) cs0"
    by simp
  then show ?case using Suc.prems(1) [of n] by (simp add: for_loop_snoc ih)
qed

lemma get_core_topology_win_example:
  "get_core_topology_win (win_example ms) data
     = Some (0, data\<lparr>physical_core_count := int (length ms),
                     cores := Some (map (\<lambda>i. core_with (int i) (map int (mask_bits (ms ! i))))
                                        [0..<length ms])\<rparr>)"
proof -
  have "for_loop [0..<length ms]
          (\<lambda>i cs. map_option (\<lambda>c. cs[i := c]) (win_core (win_example ms) i (ms ! i)))
          (replicate (length ms) core_zero)
      = Some (map (\<lambda>i. core_with (int i) (map int (mask_bits (ms ! i)))) [0..<length ms]
              @ drop (length ms) (replicate (length ms) core_zero))"
    by (rule win_loop_total) (simp_all add: win_core_eq win_example_def core_with_def)
  then show ?thesis
    by (simp add: get_core_topology_win_def win_example_def Let_def)
qed

lemma filter_range:
  "a + b \<le> m \<Longrightarrow> filter (\<lambda>n. a \<le> n \<and> n < a + b) [0..<m] = [a..<a + b]"
proof -
  assume "a + b \<le> m"
  then have m: "m = (a + b) + (m - (a + b))" by simp
  have "[0..<(a + b) + (m - (a + b))] = [0..<a + b] @ [a + b..<(a + b) + (m - (a + b))]"
    by (rule upt_add_eq_append) simp
  moreover have "[0..<a + b] = [0..<a] @ [a..<a + b]"
    by (rule upt_add_eq_append) simp
  ultimately have "[0..<m] = [0..<a] @ [a..<a + b] @ [a + b..<m]"
    using m by simp
  moreover have "filter (\<lambda>n. a \<le> n \<and> n < a + b) [0..<a] = []"
    "filter (\<lambda>n. a \<le> n \<and> n < a + b) [a..<a + b] = [a..<a + b]"
    "filter (\<lambda>n. a \<le> n \<and> n < a + b) [a + b..<m] = []"
    by (auto simp: filter_empty_conv intro: filter_True)
  ultimately show ?thesis by simp
qed

lemma mask_bits_run: "a + b \<le> 64 \<Longrightarrow> mask_bits (push_bit a (mask b)) = [a..<a + b]"
proof -
  assume ab: "a + b \<le> 64"
  have "filter (bit (push_bit a (mask b) :: 64 word)) [0..<64]
      = filter (\<lambda>n. a \<le> n \<and> n < a + b) [0..<64]"
    using ab by (intro filter_cong refl) (auto simp: bit_push_bit_iff bit_mask_iff)
  then show ?thesis using filter_range [OF ab] by (simp add: mask_bits_def)
qed

lemma mask_bits_3: "mask_bits 3 = [0, 1]"
proof -
  have "(3::64 word) = push_bit 0 (mask 2)"
    by (simp add: mask_eq_exp_minus_1)
  then show ?thesis using mask_bits_run [of 0 2] by (simp add: upt_conv_Cons)
qed

lemma mask_bits_12: "mask_bits 12 = [2, 3]"
proof -
  have "(12::64 word) = push_bit 2 (mask 2)"
    by (simp add: mask_eq_exp_minus_1 push_bit_eq_mult)
  then show ?thesis using mask_bits_run [of 2 2] by (simp add: upt_conv_Cons)
qed

lemma two_groups_run:
  "get_core_topology_win (win_example [3, 3]) (data_zero\<lparr>logical_core_count := 4\<rparr>)
     = Some (0, two_groups_result)"
  by (simp add: get_core_topology_win_example upt_conv_Cons mask_bits_3 two_groups_result_def)

lemma one_group_run:
  "get_core_topology_win (win_example [3, 12]) (data_zero\<lparr>logical_core_count := 4\<rparr>)
     = Some (0, one_group_result)"
  by (simp add: get_core_topology_win_example upt_conv_Cons mask_bits_3 mask_bits_12
        one_group_result_def)

lemma topology_by_keys:
  assumes "\<And>c. c < nat (logical_core_count data) \<Longrightarrow> topology_key env c = Some (K c)"
  shows "seen_keys env data = first_seen (map K [0..<nat (logical_core_count data)])"
    and "topology_cores env data
      = map (\<lambda>k. core_with k (map int (members K (nat (logical_core_count data)) k)))
          (first_seen (map K [0..<nat (logical_core_count data)]))"
proof -
  have k: "cpu_key env c = K c" if "c < nat (logical_core_count data)" for c
    using assms [OF that] by (simp add: cpu_key_def)
  have "map (cpu_key env) [0..<nat (logical_core_count data)]
      = map K [0..<nat (logical_core_count data)]"
    by (rule map_cong [OF refl]) (simp add: k)
  then show sk: "seen_keys env data = first_seen (map K [0..<nat (logical_core_count data)])"
    by (simp only: seen_keys_def)
  have "members (cpu_key env) (nat (logical_core_count data)) j
      = members K (nat (logical_core_count data)) j" for j
    unfolding members_def using k by (intro filter_cong refl) simp
  then show "topology_cores env data
      = map (\<lambda>k. core_with k (map int (members K (nat (logical_core_count data)) k)))
          (first_seen (map K [0..<nat (logical_core_count data)]))"
    by (simp add: topology_cores_def sk final_core_def core_with_def)
qed

lemma get_core_topology_by_keys:
  assumes nn: "0 \<le> logical_core_count data"
    and keys: "\<And>c. c < nat (logical_core_count data) \<Longrightarrow> topology_key env c = Some (K c)"
    and allocs: "\<And>site. alloc_ok env site"
  shows "get_core_topology env data =
     Some (0, data\<lparr>physical_core_count :=
                       int (length (first_seen (map K [0..<nat (logical_core_count data)]))),
                     cores := Some (map (\<lambda>k. core_with k
                                  (map int (members K (nat (logical_core_count data)) k)))
                                (first_seen (map K [0..<nat (logical_core_count data)])))\<rparr>)"
proof -
  have "topology_key env c \<noteq> None" if "c < nat (logical_core_count data)" for c
    using keys [OF that] by simp
  then show ?thesis
    using get_core_topology_eq [OF nn, of env] allocs topology_by_keys [of data env K, OF keys]
    by simp
qed

lemma atoi_small:
  "atoi (fgets 32 (CHR ''0'' # newline)) = 0" "atoi (fgets 32 (CHR ''1'' # newline)) = 1"
  by code_simp+

lemma read_example:
  "map_of files path = Some s \<Longrightarrow> s \<noteq> [] \<Longrightarrow>
   read_with atoi (linux_example n files dirs) 32 path buf = Some (atoi (fgets 32 s), Some (fgets 32 s))"
  by (simp add: read_with_def linux_example_def fgets_into_def)

lemma newline_nonempty: "t @ newline \<noteq> []"
  by (simp add: newline_def)

lemma two_core_lookup:
  "map_of two_core_files (path_phy 0) = Some (''0'' @ newline)"
  "map_of two_core_files (path_core 0) = Some (''0'' @ newline)"
  "map_of two_core_files (path_phy 1) = Some (''0'' @ newline)"
  "map_of two_core_files (path_core 1) = Some (''0'' @ newline)"
  "map_of two_core_files (path_phy 2) = Some (''0'' @ newline)"
  "map_of two_core_files (path_core 2) = Some (''1'' @ newline)"
  "map_of two_core_files (path_phy 3) = Some (''0'' @ newline)"
  "map_of two_core_files (path_core 3) = Some (''1'' @ newline)"
  by (simp_all add: two_core_files_def path_phy_def path_core_def dec.simps)


lemma two_core_keys:
  assumes "c < 4"
  shows "topology_key (linux_example 4 two_core_files []) c = Some (int (c div 2))"
proof -
  have r: "read_with atoi (linux_example 4 two_core_files []) 32 path buf
      = Some (atoi (fgets 32 (t @ newline)), Some (fgets 32 (t @ newline)))"
    if "map_of two_core_files path = Some (t @ newline)" for path buf t
    using that by (intro read_example) (simp_all add: newline_def)
  from assms consider "c = 0" | "c = 1" | "c = 2" | "c = 3" by linarith
  then show ?thesis
  proof cases
    case 1
    then show ?thesis
      by (simp add: topology_key_def r [OF two_core_lookup(1)] r [OF two_core_lookup(2)]
            atoi_small make_key_def del: One_nat_def)
  next
    case 2
    then show ?thesis
      by (simp add: topology_key_def r [OF two_core_lookup(3)] r [OF two_core_lookup(4)]
            atoi_small make_key_def del: One_nat_def)
  next
    case 3
    then show ?thesis
      by (simp add: topology_key_def r [OF two_core_lookup(5)] r [OF two_core_lookup(6)]
            atoi_small make_key_def del: One_nat_def)
  next
    case 4
    then show ?thesis
      by (simp add: topology_key_def r [OF two_core_lookup(7)] r [OF two_core_lookup(8)]
            atoi_small make_key_def del: One_nat_def)
  qed
qed

lemma two_core_run:
  "get_core_topology (linux_example 4 two_core_files []) (data_zero\<lparr>logical_core_count := 4\<rparr>)
     = Some (0, one_group_result)"
proof -
  have u: "[0..<4] = [0, 1, 2, 3]" by (simp add: upt_conv_Cons)
  have "get_core_topology (linux_example 4 two_core_files []) (data_zero\<lparr>logical_core_count := 4\<rparr>)
     = Some (0, data_zero\<lparr>logical_core_count := 4\<rparr>\<lparr>physical_core_count :=
                       int (length (first_seen (map (\<lambda>c. int (c div 2)) [0..<nat 4]))),
                     cores := Some (map (\<lambda>k. core_with k
                                  (map int (members (\<lambda>c. int (c div 2)) (nat 4) k)))
                                (first_seen (map (\<lambda>c. int (c div 2)) [0..<nat 4])))\<rparr>)"
    using get_core_topology_by_keys [of "data_zero\<lparr>logical_core_count := 4\<rparr>"
        "linux_example 4 two_core_files []" "\<lambda>c. int (c div 2)"]
      two_core_keys
    by (simp add: linux_example_def)
  then show ?thesis
    by (simp add: u first_seen_def members_def one_group_result_def)
qed


text \<open>
  C2, as amended. Whenever \<open>get_core_topology\<close> returns 0, every core's
  \<open>logical_count\<close> is the length of its \<open>logical_ids\<close>. On Linux the \<open>logical_ids\<close> of all
  cores together hold every index of 0 to N - 1 exactly once, N being
  \<open>logical_core_count\<close>. On Windows the \<open>logical_ids\<close> of core \<open>i\<close> are the set bit
  positions, in ascending order, of the group-relative mask of the \<open>i\<close>-th record, so they
  hold every index of 0 to N - 1 exactly once if and only if the masks of the records do.
\<close>

theorem topology_partition:
  "(get_core_topology env data = Some (0, data') \<longrightarrow>
      cores data' \<noteq> None \<and> logical_core_count data' = logical_core_count data \<and>
      physical_core_count data' = int (length (cores_of data')) \<and>
      set (all_ids data') = {0..<logical_core_count data'} \<and> distinct (all_ids data') \<and>
      (\<forall>c \<in> set (cores_of data').
         logical_ids c \<noteq> None \<and> logical_count c = int (length (ids_of c)))) \<and>
   (get_core_topology_win wenv wdata = Some (0, wdata') \<longrightarrow>
      cores wdata' \<noteq> None \<and> logical_core_count wdata' = logical_core_count wdata \<and>
      physical_core_count wdata' = int (length (cores_of wdata')) \<and>
      length (cores_of wdata') = length (core_masks wenv) \<and>
      (\<forall>i < length (core_masks wenv).
         ids_of (cores_of wdata' ! i) = map int (mask_bits (core_masks wenv ! i)) \<and>
         logical_count (cores_of wdata' ! i) = int (length (ids_of (cores_of wdata' ! i)))) \<and>
      ((set (all_ids wdata') = {0..<logical_core_count wdata'} \<and> distinct (all_ids wdata'))
         \<longleftrightarrow>
       (set (concat (map mask_bits (core_masks wenv))) = {0..<nat (logical_core_count wdata')} \<and>
        distinct (concat (map mask_bits (core_masks wenv))))))"
proof (intro conjI impI)
  assume run: "get_core_topology env data = Some (0, data')"
  have d: "data' = data\<lparr>physical_core_count := int (length (seen_keys env data)),
                         cores := Some (topology_cores env data)\<rparr>"
    using get_core_topology_success [OF run] by simp
  show "cores data' \<noteq> None" "logical_core_count data' = logical_core_count data"
    by (simp_all add: d)
  show "physical_core_count data' = int (length (cores_of data'))"
    by (simp add: d cores_of_def topology_cores_def)
  show "set (all_ids data') = {0..<logical_core_count data'}" "distinct (all_ids data')"
    using all_ids_linux [OF run] by simp_all
  show "\<forall>c \<in> set (cores_of data').
         logical_ids c \<noteq> None \<and> logical_count c = int (length (ids_of c))"
    by (auto simp: d cores_of_def topology_cores_def final_core_def ids_of_def)
next
  assume run: "get_core_topology_win wenv wdata = Some (0, wdata')"
  note s = get_core_topology_win_success [OF run]
  show "cores wdata' \<noteq> None" "logical_core_count wdata' = logical_core_count wdata"
    "length (cores_of wdata') = length (core_masks wenv)"
    using s by simp_all
  show "physical_core_count wdata' = int (length (cores_of wdata'))"
    using s by simp
  show "\<forall>i < length (core_masks wenv).
         ids_of (cores_of wdata' ! i) = map int (mask_bits (core_masks wenv ! i)) \<and>
         logical_count (cores_of wdata' ! i) = int (length (ids_of (cores_of wdata' ! i)))"
  proof (intro allI impI)
    fix i assume "i < length (core_masks wenv)"
    then have "win_core wenv i (core_masks wenv ! i) = Some (cores_of wdata' ! i)"
      using s by simp
    then show "ids_of (cores_of wdata' ! i) = map int (mask_bits (core_masks wenv ! i)) \<and>
         logical_count (cores_of wdata' ! i) = int (length (ids_of (cores_of wdata' ! i)))"
      using win_core_Some by blast
  qed
  show "(set (all_ids wdata') = {0..<logical_core_count wdata'} \<and> distinct (all_ids wdata'))
         \<longleftrightarrow>
       (set (concat (map mask_bits (core_masks wenv))) = {0..<nat (logical_core_count wdata')} \<and>
        distinct (concat (map mask_bits (core_masks wenv))))"
    unfolding all_ids_win [OF run] by (rule partition_int_iff)
qed

theorem topology_partition_witness:
  "get_core_topology (linux_example 4 two_core_files []) (data_zero\<lparr>logical_core_count := 4\<rparr>)
     = Some (0, one_group_result) \<and>
   get_core_topology_win (win_example [3, 12]) (data_zero\<lparr>logical_core_count := 4\<rparr>)
     = Some (0, one_group_result) \<and>
   all_ids one_group_result = [0, 1, 2, 3] \<and>
   set (all_ids one_group_result) = {0..<4} \<and> distinct (all_ids one_group_result) \<and>
   logical_count (cores_of one_group_result ! 1) = 2"
proof -
  have "logical_core_count one_group_result = 4" "all_ids one_group_result = [0, 1, 2, 3]"
    "logical_count (cores_of one_group_result ! 1) = 2"
    by (simp_all add: one_group_result_def all_ids_def cores_of_def ids_of_def core_with_def)
  then show ?thesis
    using topology_partition [of "linux_example 4 two_core_files []"
        "data_zero\<lparr>logical_core_count := 4\<rparr>" one_group_result "win_example [3, 12]"
        "data_zero\<lparr>logical_core_count := 4\<rparr>" one_group_result]
      two_core_run one_group_run
    by simp
qed

text \<open>
  The claim as first stated fails on Windows: with two processor groups the masks of two
  records are both relative to their own group, here bits 0 and 1 in each, and the
  \<open>logical_ids\<close> repeat 0 and 1 while 2 and 3 never appear.
\<close>

theorem topology_partition_counterexample:
  "get_core_topology_win (win_example [3, 3]) (data_zero\<lparr>logical_core_count := 4\<rparr>)
     = Some (0, two_groups_result) \<and>
   logical_core_count two_groups_result = 4 \<and>
   all_ids two_groups_result = [0, 1, 0, 1] \<and>
   \<not> (set (all_ids two_groups_result) = {0..<logical_core_count two_groups_result} \<and>
      distinct (all_ids two_groups_result))"
proof -
  have "logical_core_count two_groups_result = 4" "all_ids two_groups_result = [0, 1, 0, 1]"
    by (simp_all add: two_groups_result_def all_ids_def cores_of_def ids_of_def core_with_def)
  then show ?thesis using two_groups_run by simp
qed

section \<open>Properties: the grouping key and missing topology files (Linux)\<close>

lemma low16: "(word_of_int c :: 32 word) AND 0xFFFF = word_of_int (c mod 65536)"
proof -
  have "(0xFFFF :: 32 word) = mask 16" by (simp add: mask_eq_exp_minus_1)
  then have "(word_of_int c :: 32 word) AND 0xFFFF = take_bit 16 (word_of_int c)"
    by (simp add: take_bit_eq_mask)
  also have "\<dots> = word_of_int (take_bit 16 c)"
    by (simp add: take_bit_of_int)
  finally show ?thesis by (simp add: take_bit_eq_mod)
qed

lemma make_key_mod: "make_key p c = make_key p (c mod 65536)"
  by (simp add: make_key_def low16)

lemma key_word:
  "push_bit 16 (word_of_int p :: 32 word) OR (word_of_int c AND 0xFFFF)
     = word_of_int (p * 65536 + c mod 65536)"
proof -
  have "push_bit 16 (word_of_int p :: 32 word) OR take_bit 16 (word_of_int (c mod 65536))
      = push_bit 16 (word_of_int p) + take_bit 16 (word_of_int (c mod 65536))"
    by (rule disjunctive_add [symmetric]) (auto simp: bit_push_bit_iff bit_take_bit_iff)
  moreover have "take_bit 16 (word_of_int (c mod 65536) :: 32 word) = word_of_int (c mod 65536)"
  proof -
    have "take_bit 16 (word_of_int (c mod 65536) :: 32 word)
        = word_of_int (take_bit 16 (c mod 65536))"
      by (simp add: take_bit_of_int)
    moreover have "take_bit 16 (c mod 65536) = c mod 65536"
      by (simp add: take_bit_eq_mod)
    ultimately show ?thesis by (simp only:)
  qed
  moreover have "push_bit 16 (word_of_int p :: 32 word) = word_of_int (p * 65536)"
    by (simp add: push_bit_eq_mult)
  ultimately show ?thesis by (simp add: low16)
qed

lemma sint_in_range:
  "- (2 ^ 31) \<le> k \<Longrightarrow> k < 2 ^ 31 \<Longrightarrow> sint (word_of_int k :: 32 word) = k"
  by (simp add: sint_sbintrunc' signed_take_bit_int_eq_self)

lemma make_key_value:
  assumes "- 32768 \<le> p" "p < 32768"
  shows "make_key p c = p * 65536 + c mod 65536"
proof -
  have "0 \<le> c mod 65536" "c mod 65536 < 65536" by simp_all
  with assms have r: "- (2 ^ 31) \<le> p * 65536 + c mod 65536" "p * 65536 + c mod 65536 < 2 ^ 31"
    by simp_all
  have "sint (word_of_int (p * 65536 + c mod 65536) :: 32 word) = p * 65536 + c mod 65536"
    using r by (rule sint_in_range)
  then show ?thesis by (simp only: make_key_def key_word)
qed


lemma make_key_injective:
  assumes "- 32768 \<le> p1" "p1 < 32768" "- 32768 \<le> p2" "p2 < 32768"
    and "0 \<le> c1" "c1 < 65536" "0 \<le> c2" "c2 < 65536"
    and eq: "make_key p1 c1 = make_key p2 c2"
  shows "p1 = p2 \<and> c1 = c2"
proof -
  have e: "p1 * 65536 + c1 = p2 * 65536 + c2"
    using assms by (simp add: make_key_value)
  have "(p1 * 65536 + c1) mod 65536 = c1" "(p2 * 65536 + c2) mod 65536 = c2"
    using assms by simp_all
  with e have c: "c1 = c2" by simp
  with e show ?thesis by simp
qed

lemma wide_core_lookup:
  "map_of wide_core_files (path_phy 0) = Some (''0'' @ newline)"
  "map_of wide_core_files (path_core 0) = Some (''1'' @ newline)"
  "map_of wide_core_files (path_phy 1) = Some (''0'' @ newline)"
  "map_of wide_core_files (path_core 1) = Some (''65537'' @ newline)"
  by (simp_all add: wide_core_files_def path_phy_def path_core_def dec.simps)

lemma atoi_wide:
  "atoi (fgets 32 (CHR ''6'' # CHR ''5'' # CHR ''5'' # CHR ''3'' # CHR ''7'' # newline)) = 65537"
  by code_simp

lemma wide_core_keys:
  assumes "c < 2"
  shows "topology_key (linux_example 2 wide_core_files []) c = Some 1"
proof -
  have r: "read_with atoi (linux_example 2 wide_core_files []) 32 path buf
      = Some (atoi (fgets 32 (t @ newline)), Some (fgets 32 (t @ newline)))"
    if "map_of wide_core_files path = Some (t @ newline)" for path buf t
    using that by (intro read_example) (simp_all add: newline_def)
  have k: "make_key 0 1 = 1" "make_key 0 65537 = 1"
    by (simp_all add: make_key_value)
  from assms consider "c = 0" | "c = 1" by linarith
  then show ?thesis
  proof cases
    case 1
    then show ?thesis
      by (simp add: topology_key_def r [OF wide_core_lookup(1)] r [OF wide_core_lookup(2)]
            atoi_small k del: One_nat_def)
  next
    case 2
    then show ?thesis
      by (simp add: topology_key_def r [OF wide_core_lookup(3)] r [OF wide_core_lookup(4)]
            atoi_small atoi_wide k del: One_nat_def)
  qed
qed

lemma wide_core_run:
  "get_core_topology (linux_example 2 wide_core_files []) (data_zero\<lparr>logical_core_count := 2\<rparr>)
     = Some (0, merged_result)"
proof -
  have u: "[0..<2] = [0, 1]" by (simp add: upt_conv_Cons)
  have "get_core_topology (linux_example 2 wide_core_files []) (data_zero\<lparr>logical_core_count := 2\<rparr>)
     = Some (0, data_zero\<lparr>logical_core_count := 2\<rparr>\<lparr>physical_core_count :=
                       int (length (first_seen (map (\<lambda>c. 1) [0..<nat 2]))),
                     cores := Some (map (\<lambda>k. core_with k
                                  (map int (members (\<lambda>c. 1) (nat 2) k)))
                                (first_seen (map (\<lambda>c. 1) [0..<nat 2])))\<rparr>)"
    using get_core_topology_by_keys [of "data_zero\<lparr>logical_core_count := 2\<rparr>"
        "linux_example 2 wide_core_files []" "\<lambda>c. 1"]
      wide_core_keys
    by (simp add: linux_example_def)
  then show ?thesis
    by (simp add: u first_seen_def members_def merged_result_def)
qed


lemma topology_key_reads:
  assumes "read_with atoi env 32 (path_phy cpu) None = Some (phy, buf)"
    "read_with atoi env 32 (path_core cpu) buf = Some (core, buf')"
  shows "topology_key env cpu = Some (make_key phy core)"
  using assms by (simp add: topology_key_def)

lemma same_key_same_core:
  assumes run: "get_core_topology env data = Some (0, data')"
    and a: "a < nat (logical_core_count data)" and b: "b < nat (logical_core_count data)"
    and eq: "topology_key env a = topology_key env b"
  shows "\<exists>pc \<in> set (cores_of data'). int a \<in> set (ids_of pc) \<and> int b \<in> set (ids_of pc)"
proof -
  define L where "L = nat (logical_core_count data)"
  have d: "cores_of data' = map (final_core (cpu_key env) L) (seen_keys env data)"
    using get_core_topology_success [OF run] by (simp add: cores_of_def topology_cores_def L_def)
  have k: "cpu_key env b = cpu_key env a" using eq by (simp add: cpu_key_def)
  have "cpu_key env a \<in> set (seen_keys env data)"
    using a by (simp add: seen_keys_def)
  then have "final_core (cpu_key env) L (cpu_key env a) \<in> set (cores_of data')"
    by (simp add: d)
  moreover have "int a \<in> set (ids_of (final_core (cpu_key env) L (cpu_key env a)))"
    "int b \<in> set (ids_of (final_core (cpu_key env) L (cpu_key env a)))"
    using a b k by (simp_all add: members_def L_def)
  ultimately show ?thesis by blast
qed

text \<open>
  C10. On Linux the grouping key of a logical CPU is \<open>(phy << 16) | (core & 0xFFFF)\<close>.
  Two core ids that are congruent modulo 65536 give the same key under the same package id, and
  logical CPUs with the same key end in the same physical core, so two logical CPUs with the
  distinct pairs (0, 1) and (0, 65537) are merged.
  With package ids of 16 signed bits, the pair is recovered from the key when the core ids
  lie in 0 to 65535, and every core id outside that range collides with one inside it.
\<close>

theorem key_collisions:
  "(read_with atoi env 32 (path_phy cpu) None = Some (phy, buf) \<and>
    read_with atoi env 32 (path_core cpu) buf = Some (core, buf') \<longrightarrow>
      topology_key env cpu = Some (make_key phy core)) \<and>
   (c1 mod 65536 = c2 mod 65536 \<longrightarrow> make_key p c1 = make_key p c2) \<and>
   (- 32768 \<le> p1 \<and> p1 < 32768 \<and> - 32768 \<le> p2 \<and> p2 < 32768 \<and>
    0 \<le> c1 \<and> c1 < 65536 \<and> 0 \<le> c2 \<and> c2 < 65536 \<and> make_key p1 c1 = make_key p2 c2 \<longrightarrow>
      p1 = p2 \<and> c1 = c2) \<and>
   (\<not> (0 \<le> c \<and> c < 65536) \<longrightarrow> c mod 65536 \<noteq> c \<and> make_key p (c mod 65536) = make_key p c) \<and>
   (get_core_topology env data = Some (0, data') \<and> a < nat (logical_core_count data) \<and>
    b < nat (logical_core_count data) \<and> topology_key env a = topology_key env b \<longrightarrow>
      (\<exists>pc \<in> set (cores_of data'). int a \<in> set (ids_of pc) \<and> int b \<in> set (ids_of pc))) \<and>
   get_core_topology (linux_example 2 wide_core_files []) (data_zero\<lparr>logical_core_count := 2\<rparr>)
     = Some (0, merged_result)"
proof (intro conjI impI)
  assume "read_with atoi env 32 (path_phy cpu) None = Some (phy, buf) \<and>
    read_with atoi env 32 (path_core cpu) buf = Some (core, buf')"
  then show "topology_key env cpu = Some (make_key phy core)"
    using topology_key_reads by blast
next
  assume "c1 mod 65536 = c2 mod 65536"
  then show "make_key p c1 = make_key p c2"
    using make_key_mod [of p c1] make_key_mod [of p c2] by simp
next
  assume "- 32768 \<le> p1 \<and> p1 < 32768 \<and> - 32768 \<le> p2 \<and> p2 < 32768 \<and>
    0 \<le> c1 \<and> c1 < 65536 \<and> 0 \<le> c2 \<and> c2 < 65536 \<and> make_key p1 c1 = make_key p2 c2"
  then have "p1 = p2 \<and> c1 = c2" by (intro make_key_injective) simp_all
  then show "p1 = p2" "c1 = c2" by simp_all
next
  assume out: "\<not> (0 \<le> c \<and> c < 65536)"
  have "0 \<le> c mod 65536" "c mod 65536 < 65536" by simp_all
  with out show "c mod 65536 \<noteq> c" by auto
  show "make_key p (c mod 65536) = make_key p c" by (rule make_key_mod [symmetric])
next
  assume "get_core_topology env data = Some (0, data') \<and> a < nat (logical_core_count data) \<and>
    b < nat (logical_core_count data) \<and> topology_key env a = topology_key env b"
  then show "\<exists>pc \<in> set (cores_of data'). int a \<in> set (ids_of pc) \<and> int b \<in> set (ids_of pc)"
    using same_key_same_core [of env data data' a b] by blast
next
  show "get_core_topology (linux_example 2 wide_core_files [])
      (data_zero\<lparr>logical_core_count := 2\<rparr>) = Some (0, merged_result)"
    by (rule wide_core_run)
qed

theorem key_collisions_witness:
  "topology_key (linux_example 2 wide_core_files []) 1 = Some (make_key 0 65537) \<and>
   make_key 0 1 = make_key 0 65537 \<and> make_key 1 2 = 65538 \<and>
   (65537 :: int) mod 65536 \<noteq> 65537 \<and> all_ids merged_result = [0, 1] \<and>
   length (cores_of merged_result) = 1 \<and>
   (\<exists>pc \<in> set (cores_of merged_result). 0 \<in> set (ids_of pc) \<and> 1 \<in> set (ids_of pc))"
proof -
  have r: "read_with atoi (linux_example 2 wide_core_files []) 32 path buf
      = Some (atoi (fgets 32 (t @ newline)), Some (fgets 32 (t @ newline)))"
    if "map_of wide_core_files path = Some (t @ newline)" for path buf t
    using that by (intro read_example) (simp_all add: newline_def)
  have a: "atoi (fgets 32 (''0'' @ newline)) = 0" "atoi (fgets 32 (''65537'' @ newline)) = 65537"
    using atoi_small(1) atoi_wide by simp_all
  have m: "all_ids merged_result = [0, 1]" "length (cores_of merged_result) = 1"
    by (simp_all add: merged_result_def all_ids_def cores_of_def ids_of_def core_with_def)
  have v: "make_key 1 2 = 65538" by (simp add: make_key_value)
  have same: "topology_key (linux_example 2 wide_core_files []) 0
      = topology_key (linux_example 2 wide_core_files []) 1"
    using wide_core_keys [of 0] wide_core_keys [of 1] by simp
  have "\<exists>pc \<in> set (cores_of merged_result). int 0 \<in> set (ids_of pc) \<and> int 1 \<in> set (ids_of pc)"
    using key_collisions [of "linux_example 2 wide_core_files []" 1 0
        "Some (fgets 32 (''0'' @ newline))" 65537 "Some (fgets 32 (''65537'' @ newline))"
        1 65537 0 1 1 65537 "data_zero\<lparr>logical_core_count := 2\<rparr>" merged_result 0 1]
      same wide_core_run
    by simp
  then have one: "\<exists>pc \<in> set (cores_of merged_result). 0 \<in> set (ids_of pc) \<and> 1 \<in> set (ids_of pc)"
    by simp
  show ?thesis
    using key_collisions [of "linux_example 2 wide_core_files []" 1 0
        "Some (fgets 32 (''0'' @ newline))" 65537 "Some (fgets 32 (''65537'' @ newline))"
        1 65537 0 1 1 65537]
      key_collisions [of _ _ _ _ _ _ 2 2 0 1 1 65537]
      r [OF wide_core_lookup(3)] r [OF wide_core_lookup(4)] a m v one
    by simp
qed

lemma first_seen_const_Suc: "first_seen (map (\<lambda>c. k) [0..<Suc n]) = [k]"
proof (induction n)
  case 0
  then show ?case by (simp add: first_seen_def)
next
  case (Suc n)
  have "first_seen (map (\<lambda>c. k) [0..<Suc n] @ [k]) = first_seen (map (\<lambda>c. k) [0..<Suc n])"
    by (simp only: first_seen_snoc) simp
  then show ?case using Suc by simp
qed

lemma first_seen_const: "0 < n \<Longrightarrow> first_seen (map (\<lambda>c. k) [0..<n]) = [k]"
  using first_seen_const_Suc [of k "n - 1"] by simp

lemma members_const: "members (\<lambda>c. k) n k = [0..<n]"
  by (simp add: members_def)

lemma read_missing: "fopen env path = None \<Longrightarrow> read_with conv env n path buf = Some (0, buf)"
  by (simp add: read_with_def)

lemma topology_key_missing:
  "fopen env (path_phy cpu) = None \<Longrightarrow> fopen env (path_core cpu) = None \<Longrightarrow>
   topology_key env cpu = Some 0"
  by (simp add: topology_key_def read_missing make_key_def)

lemma collapse_run:
  assumes files: "\<And>c. c < nat (logical_core_count data) \<Longrightarrow>
      fopen env (path_phy c) = None \<and> fopen env (path_core c) = None"
    and pos: "0 < logical_core_count data"
    and allocs: "alloc_ok env Alloc_keys" "alloc_ok env Alloc_temp" "alloc_ok env Alloc_cores"
      "alloc_ok env (Alloc_logical_ids 0)"
  shows "get_core_topology env data
     = Some (0, data\<lparr>physical_core_count := 1,
                     cores := Some [core_with 0 (map int [0..<nat (logical_core_count data)])]\<rparr>)"
proof -
  have k: "topology_key env c = Some 0" if "c < nat (logical_core_count data)" for c
    using files [OF that] by (simp add: topology_key_missing)
  have ne: "topology_key env c \<noteq> None" if "c < nat (logical_core_count data)" for c
    using k [OF that] by simp
  have L: "0 < nat (logical_core_count data)" using pos by simp
  have sk: "seen_keys env data = [0]"
    using topology_by_keys(1) [of data env "\<lambda>c. 0", OF k] first_seen_const [OF L, of 0]
    by simp
  have tc: "topology_cores env data = [core_with 0 (map int [0..<nat (logical_core_count data)])]"
    using topology_by_keys(2) [of data env "\<lambda>c. 0", OF k] first_seen_const [OF L, of 0]
    by (simp add: members_const)
  show ?thesis
    using get_core_topology_eq [of data env, OF _ ne] pos allocs by (simp add: sk tc)
qed

text \<open>
  A topology file that cannot be opened leaves its id at zero, so a logical CPU with neither
  file has package id 0 and core id 0. When no logical CPU (of at least one) has a topology file
  that can be opened, and the allocations succeed, \<open>get_core_topology\<close> returns 0 with a
  single physical core that owns every logical CPU.
\<close>

lemma topology_files_not_opened:
  "(fopen env path = None \<longrightarrow> read_with atoi env 32 path buf = Some (0, buf)) \<and>
   (fopen env (path_phy cpu) = None \<and> fopen env (path_core cpu) = None \<longrightarrow>
      topology_key env cpu = Some (make_key 0 0) \<and> make_key 0 0 = 0) \<and>
   ((\<forall>c < nat (logical_core_count data).
        fopen env (path_phy c) = None \<and> fopen env (path_core c) = None) \<and>
    0 < logical_core_count data \<and> alloc_ok env Alloc_keys \<and> alloc_ok env Alloc_temp \<and>
    alloc_ok env Alloc_cores \<and> alloc_ok env (Alloc_logical_ids 0) \<longrightarrow>
      get_core_topology env data
        = Some (0, data\<lparr>physical_core_count := 1,
                        cores := Some [core_with 0 (map int [0..<nat (logical_core_count data)])]\<rparr>))"
proof (intro conjI impI)
  assume "fopen env path = None"
  then show "read_with atoi env 32 path buf = Some (0, buf)" by (rule read_missing)
next
  show z: "make_key 0 0 = 0" by (simp add: make_key_def)
  assume "fopen env (path_phy cpu) = None \<and> fopen env (path_core cpu) = None"
  then show "topology_key env cpu = Some (make_key 0 0)"
    by (simp add: topology_key_missing z)
next
  assume a: "(\<forall>c < nat (logical_core_count data).
        fopen env (path_phy c) = None \<and> fopen env (path_core c) = None) \<and>
    0 < logical_core_count data \<and> alloc_ok env Alloc_keys \<and> alloc_ok env Alloc_temp \<and>
    alloc_ok env Alloc_cores \<and> alloc_ok env (Alloc_logical_ids 0)"
  then show "get_core_topology env data
        = Some (0, data\<lparr>physical_core_count := 1,
                        cores := Some [core_with 0 (map int [0..<nat (logical_core_count data)])]\<rparr>)"
    by (intro collapse_run) simp_all
qed

lemma topology_files_not_opened_example:
  "get_core_topology (linux_example 2 [] []) (data_zero\<lparr>logical_core_count := 2\<rparr>)
     = Some (0, collapsed_result) \<and>
   topology_key (linux_example 2 [] []) 1 = Some 0 \<and>
   read_with atoi (linux_example 2 [] []) 32 (path_core 1) None = Some (0, None)"
proof -
  have f: "fopen (linux_example 2 [] []) path = None" for path
    by (simp add: linux_example_def)
  have al: "alloc_ok (linux_example 2 [] []) site" for site
    by (simp add: linux_example_def)
  have u: "[0..<2] = [0, 1]" by (simp add: upt_conv_Cons)
  show ?thesis
    using topology_files_not_opened [of "linux_example 2 [] []" "path_core 1" None 1
        "data_zero\<lparr>logical_core_count := 2\<rparr>"] f al
    by (simp add: collapsed_result_def u)
qed

lemma read_nothing:
  "fopen env path = Some [] \<Longrightarrow> read_with conv env n path (Some b) = Some (conv b, Some b)"
  by (simp add: read_with_def fgets_into_def)

lemma read_nothing_uninitialised:
  "fopen env path = Some [] \<Longrightarrow> read_with conv env n path None = None"
  by (simp add: read_with_def fgets_into_def)

lemma unreadable_core_lookup:
  "map_of unreadable_core_files (path_phy 0) = Some (''1'' @ newline)"
  "map_of unreadable_core_files (path_core 0) = Some (''0'' @ newline)"
  "map_of unreadable_core_files (path_phy 1) = Some (''1'' @ newline)"
  "map_of unreadable_core_files (path_core 1) = Some []"
  by (simp_all add: unreadable_core_files_def path_phy_def path_core_def dec.simps)

lemma unreadable_core_keys:
  assumes "c < 2"
  shows "topology_key (linux_example 2 unreadable_core_files []) c = Some (65536 + int c)"
proof -
  have r: "read_with atoi (linux_example 2 unreadable_core_files []) 32 path buf
      = Some (atoi (fgets 32 (t @ newline)), Some (fgets 32 (t @ newline)))"
    if "map_of unreadable_core_files path = Some (t @ newline)" for path buf t
    using that by (intro read_example) (simp_all add: newline_def)
  have e: "read_with atoi (linux_example 2 unreadable_core_files []) 32 (path_core 1) (Some b)
      = Some (atoi b, Some b)" for b
    by (rule read_nothing) (use unreadable_core_lookup(4) in \<open>simp add: linux_example_def\<close>)
  have k: "make_key 1 0 = 65536" "make_key 1 1 = 65537"
    by (simp_all add: make_key_value)
  from assms consider "c = 0" | "c = 1" by linarith
  then show ?thesis
  proof cases
    case 1
    then show ?thesis
      by (simp add: topology_key_def r [OF unreadable_core_lookup(1)]
            r [OF unreadable_core_lookup(2)] atoi_small k del: One_nat_def)
  next
    case 2
    then show ?thesis
      by (simp add: topology_key_def r [OF unreadable_core_lookup(3)] e atoi_small k
            del: One_nat_def)
  qed
qed

lemma unreadable_core_run:
  "get_core_topology (linux_example 2 unreadable_core_files [])
       (data_zero\<lparr>logical_core_count := 2\<rparr>)
     = Some (0, split_result)"
proof -
  have u: "[0..<2] = [0, 1]" by (simp add: upt_conv_Cons)
  have "get_core_topology (linux_example 2 unreadable_core_files [])
       (data_zero\<lparr>logical_core_count := 2\<rparr>)
     = Some (0, data_zero\<lparr>logical_core_count := 2\<rparr>\<lparr>physical_core_count :=
                       int (length (first_seen (map (\<lambda>c. 65536 + int c) [0..<nat 2]))),
                     cores := Some (map (\<lambda>k. core_with k
                                  (map int (members (\<lambda>c. 65536 + int c) (nat 2) k)))
                                (first_seen (map (\<lambda>c. 65536 + int c) [0..<nat 2])))\<rparr>)"
    using get_core_topology_by_keys [of "data_zero\<lparr>logical_core_count := 2\<rparr>"
        "linux_example 2 unreadable_core_files []" "\<lambda>c. 65536 + int c"]
      unreadable_core_keys
    by (simp add: linux_example_def)
  then show ?thesis
    by (simp add: u first_seen_def members_def split_result_def)
qed

lemma empty_topology_run:
  "topology_key (linux_example 1 empty_topology_files []) 0 = None"
  "get_core_topology (linux_example 1 empty_topology_files []) (data_zero\<lparr>logical_core_count := 1\<rparr>)
     = None"
proof -
  have "fopen (linux_example 1 empty_topology_files []) (path_phy 0) = Some []"
    by (simp add: linux_example_def empty_topology_files_def)
  then show k: "topology_key (linux_example 1 empty_topology_files []) 0 = None"
    by (simp add: topology_key_def read_nothing_uninitialised)
  have "discover_body (linux_example 1 empty_topology_files []) 0 st = None" for st
    by (cases st) (simp add: discover_body_def k)
  then show "get_core_topology (linux_example 1 empty_topology_files [])
      (data_zero\<lparr>logical_core_count := 1\<rparr>) = None"
    by (simp add: get_core_topology_def Let_def calloc_def linux_example_def)
qed

text \<open>
  C4 (the code departs from the claim). A topology file that cannot be opened leaves its id at
  zero, but one that opens and cannot be read does not: the result of \<open>fgets\<close> is not checked,
  so \<open>atoi\<close> reads what the buffer held before. With two logical CPUs of package 1, the first
  with core id 0 and the second with a \<open>core_id\<close> file that delivers nothing, the second CPU
  gets the core id 1, the number its package file left in the buffer, instead of 0, and the two
  CPUs become two physical cores instead of one. When the package file itself delivers nothing,
  \<open>atoi\<close> reads a buffer that was never written, and the run is undefined.
\<close>

theorem unreadable_topology_file_not_zeroed:
  "fopen (linux_example 2 unreadable_core_files []) (path_core 1) = Some [] \<and>
   topology_key (linux_example 2 unreadable_core_files []) 0 = Some (make_key 1 0) \<and>
   topology_key (linux_example 2 unreadable_core_files []) 1 = Some (make_key 1 1) \<and>
   make_key 1 1 \<noteq> make_key 1 0 \<and>
   get_core_topology (linux_example 2 unreadable_core_files [])
       (data_zero\<lparr>logical_core_count := 2\<rparr>)
     = Some (0, split_result) \<and>
   length (cores_of split_result) = 2 \<and>
   map ids_of (cores_of split_result) = [[0], [1]] \<and>
   fopen (linux_example 1 empty_topology_files []) (path_phy 0) = Some [] \<and>
   topology_key (linux_example 1 empty_topology_files []) 0 = None \<and>
   get_core_topology (linux_example 1 empty_topology_files []) (data_zero\<lparr>logical_core_count := 1\<rparr>)
     = None"
proof -
  have k: "make_key 1 0 = 65536" "make_key 1 1 = 65537"
    by (simp_all add: make_key_value)
  have f: "fopen (linux_example 2 unreadable_core_files []) (path_core 1) = Some []"
    "fopen (linux_example 1 empty_topology_files []) (path_phy 0) = Some []"
    using unreadable_core_lookup(4) by (simp_all add: linux_example_def empty_topology_files_def)
  have c: "length (cores_of split_result) = 2" "map ids_of (cores_of split_result) = [[0], [1]]"
    by (simp_all add: split_result_def cores_of_def ids_of_def core_with_def)
  show ?thesis
    using unreadable_core_keys [of 0] unreadable_core_keys [of 1] f
    by (simp add: k c unreadable_core_run empty_topology_run)
qed

section \<open>Properties: attribution of an L2 cache instance\<close>

lemma set_l2size_in_range:
  "l2size data = Some xs \<Longrightarrow> 0 \<le> i \<Longrightarrow> nat i < length xs \<Longrightarrow>
   set_l2size i v data = Some (data\<lparr>l2size := Some (xs[nat i := v])\<rparr>)"
  by (simp add: set_l2size_def store_def)

lemma for_loop_filter:
  "for_loop xs (\<lambda>b d. if \<not> P b then Some d else f b d) s = for_loop (filter P xs) f s"
  by (induction xs arbitrary: s) (auto split: option.splits)

lemma assign_cpus_level2:
  "assign_cpus 2 sizeKB cpus data
     = for_loop cpus
         (\<lambda>c d. set_l2size c \<lparr>l2cache_size = sizeKB, shared_with_core_number = int (length cpus)\<rparr> d)
         data"
  by (simp add: assign_cpus_def)

lemma assign_mask_level2:
  assumes "Level cr = 2"
  shows "assign_mask cr data
     = for_loop (mask_bits (GroupMask_Mask cr))
         (\<lambda>b d. set_l2size (int b)
            \<lparr>l2cache_size = sint (CacheSize cr div 1024),
             shared_with_core_number = int (length (mask_bits (GroupMask_Mask cr)))\<rparr> d)
         data"
proof -
  have "assign_mask cr data
     = for_loop [0..<64]
         (\<lambda>b d. if \<not> bit (GroupMask_Mask cr) b then Some d
            else set_l2size (int b)
              \<lparr>l2cache_size = sint (CacheSize cr div 1024),
               shared_with_core_number = count_bits (GroupMask_Mask cr)\<rparr> d)
         data"
    using assms by (simp add: assign_mask_def Let_def cong: if_cong)
  then show ?thesis
    by (simp only: for_loop_filter count_bits_eq mask_bits_def)
qed

lemma l2_loop_total:
  assumes "l2size data = Some xs" "\<forall>c \<in> set cs. 0 \<le> g c \<and> nat (g c) < length xs"
  shows "\<exists>ys. for_loop cs (\<lambda>c d. set_l2size (g c) v d) data = Some (data\<lparr>l2size := Some ys\<rparr>) \<and>
     length ys = length xs \<and> (\<forall>c \<in> set cs. ys ! nat (g c) = v) \<and>
     (\<forall>i < length xs. (\<forall>c \<in> set cs. nat (g c) \<noteq> i) \<longrightarrow> ys ! i = xs ! i)"
  using assms
proof (induction cs arbitrary: data xs)
  case Nil
  then have "data\<lparr>l2size := Some xs\<rparr> = data" by simp
  then show ?case by (intro exI [of _ xs]) simp
next
  case (Cons x cs)
  define xs1 where "xs1 = xs[nat (g x) := v]"
  define d1 where "d1 = data\<lparr>l2size := Some xs1\<rparr>"
  have x: "0 \<le> g x" "nat (g x) < length xs" using Cons.prems by simp_all
  have s: "set_l2size (g x) v data = Some d1"
    using Cons.prems x by (simp add: set_l2size_in_range d1_def xs1_def)
  have "l2size d1 = Some xs1" by (simp add: d1_def)
  moreover have "\<forall>c \<in> set cs. 0 \<le> g c \<and> nat (g c) < length xs1"
    using Cons.prems by (simp add: xs1_def)
  ultimately obtain ys where
    r: "for_loop cs (\<lambda>c d. set_l2size (g c) v d) d1 = Some (d1\<lparr>l2size := Some ys\<rparr>)"
    and l: "length ys = length xs1"
    and m: "\<forall>c \<in> set cs. ys ! nat (g c) = v"
    and k: "\<forall>i < length xs1. (\<forall>c \<in> set cs. nat (g c) \<noteq> i) \<longrightarrow> ys ! i = xs1 ! i"
    using Cons.IH [of d1 xs1] by blast
  have "for_loop (x # cs) (\<lambda>c d. set_l2size (g c) v d) data = Some (data\<lparr>l2size := Some ys\<rparr>)"
    using s r by (simp add: d1_def)
  moreover have "length ys = length xs" using l by (simp add: xs1_def)
  moreover have "ys ! nat (g x) = v"
  proof (cases "\<forall>c \<in> set cs. nat (g c) \<noteq> nat (g x)")
    case True
    then have "ys ! nat (g x) = xs1 ! nat (g x)" using k x by (simp add: xs1_def)
    then show ?thesis using x by (simp add: xs1_def)
  next
    case False
    then show ?thesis using m by metis
  qed
  moreover have "ys ! i = xs ! i"
    if "i < length xs" "\<forall>c \<in> set (x # cs). nat (g c) \<noteq> i" for i
  proof -
    have "ys ! i = xs1 ! i" using k that by (simp add: xs1_def)
    then show ?thesis using that by (simp add: xs1_def)
  qed
  ultimately show ?case using m by auto
qed

lemma l2_loop_fail:
  assumes "l2size data = Some xs" "\<exists>c \<in> set cs. \<not> (0 \<le> g c \<and> nat (g c) < length xs)"
  shows "for_loop cs (\<lambda>c d. set_l2size (g c) v d) data = None"
  using assms
proof (induction cs arbitrary: data xs)
  case Nil
  then show ?case by simp
next
  case (Cons x cs)
  show ?case
  proof (cases "0 \<le> g x \<and> nat (g x) < length xs")
    case False
    then have "set_l2size (g x) v data = None"
      using Cons.prems(1) by (auto simp: set_l2size_def store_def)
    then show ?thesis by simp
  next
    case True
    then have s: "set_l2size (g x) v data = Some (data\<lparr>l2size := Some (xs[nat (g x) := v])\<rparr>)"
      using Cons.prems(1) by (simp add: set_l2size_in_range)
    have "\<exists>c \<in> set cs. \<not> (0 \<le> g c \<and> nat (g c) < length (xs[nat (g x) := v]))"
      using Cons.prems(2) True by auto
    then have "for_loop cs (\<lambda>c d. set_l2size (g c) v d)
        (data\<lparr>l2size := Some (xs[nat (g x) := v])\<rparr>) = None"
      by (intro Cons.IH [of _ "xs[nat (g x) := v]"]) simp_all
    then show ?thesis using s by simp
  qed
qed

lemma assign_cpus_total:
  assumes "l2size data = Some xs" "\<forall>c \<in> set cpus. 0 \<le> c \<and> c < int (length xs)"
  shows "\<exists>ys. assign_cpus 2 sizeKB cpus data = Some (data\<lparr>l2size := Some ys\<rparr>) \<and>
     length ys = length xs \<and>
     (\<forall>c \<in> set cpus. ys ! nat c
        = \<lparr>l2cache_size = sizeKB, shared_with_core_number = int (length cpus)\<rparr>) \<and>
     (\<forall>i < length xs. int i \<notin> set cpus \<longrightarrow> ys ! i = xs ! i)"
proof -
  have "\<forall>c \<in> set cpus. 0 \<le> c \<and> nat c < length xs" using assms(2) by auto
  from l2_loop_total [where g = "\<lambda>c. c", OF assms(1) this,
      of "\<lparr>l2cache_size = sizeKB, shared_with_core_number = int (length cpus)\<rparr>"]
  obtain ys where
    r: "for_loop cpus
         (\<lambda>c d. set_l2size c \<lparr>l2cache_size = sizeKB, shared_with_core_number = int (length cpus)\<rparr> d)
         data = Some (data\<lparr>l2size := Some ys\<rparr>)"
    and l: "length ys = length xs"
    and m: "\<forall>c \<in> set cpus. ys ! nat c
        = \<lparr>l2cache_size = sizeKB, shared_with_core_number = int (length cpus)\<rparr>"
    and k: "\<forall>i < length xs. (\<forall>c \<in> set cpus. nat c \<noteq> i) \<longrightarrow> ys ! i = xs ! i"
    by blast
  have "ys ! i = xs ! i" if "i < length xs" "int i \<notin> set cpus" for i
  proof -
    have "nat c \<noteq> i" if "c \<in> set cpus" for c
      using that assms(2) \<open>int i \<notin> set cpus\<close> by auto
    then show ?thesis using k that by blast
  qed
  then show ?thesis using r l m by (auto simp: assign_cpus_level2)
qed

lemma cache_index_body_level2:
  assumes "read_with atoi env 64 (cache_dir idx @ ''/level'') None = Some (2, buf)"
    "read_with parse_sizeKB env 64 (cache_dir idx @ ''/size'') buf = Some (sizeKB, buf')"
    "shared_cpus env idx = Some cpus" "length cpus \<le> 256"
  shows "cache_index_body env idx data = assign_cpus 2 sizeKB cpus data"
  using assms by (simp add: cache_index_body_def shared_cpus_def Let_def)

lemma assign_mask_total:
  assumes "Level cr = 2" "l2size data = Some xs"
    "\<forall>b \<in> set (mask_bits (GroupMask_Mask cr)). b < length xs"
  shows "\<exists>ys. assign_mask cr data = Some (data\<lparr>l2size := Some ys\<rparr>) \<and> length ys = length xs \<and>
     (\<forall>b \<in> set (mask_bits (GroupMask_Mask cr)). ys ! b
        = \<lparr>l2cache_size = sint (CacheSize cr div 1024),
           shared_with_core_number = count_bits (GroupMask_Mask cr)\<rparr>) \<and>
     (\<forall>i < length xs. i \<notin> set (mask_bits (GroupMask_Mask cr)) \<longrightarrow> ys ! i = xs ! i)"
proof -
  have "\<forall>b \<in> set (mask_bits (GroupMask_Mask cr)). 0 \<le> int b \<and> nat (int b) < length xs"
    using assms(3) by simp
  from l2_loop_total [where g = int, OF assms(2) this,
      of "\<lparr>l2cache_size = sint (CacheSize cr div 1024),
           shared_with_core_number = int (length (mask_bits (GroupMask_Mask cr)))\<rparr>"]
  obtain ys where
    r: "for_loop (mask_bits (GroupMask_Mask cr))
         (\<lambda>b d. set_l2size (int b)
            \<lparr>l2cache_size = sint (CacheSize cr div 1024),
             shared_with_core_number = int (length (mask_bits (GroupMask_Mask cr)))\<rparr> d)
         data = Some (data\<lparr>l2size := Some ys\<rparr>)"
    and l: "length ys = length xs"
    and m: "\<forall>b \<in> set (mask_bits (GroupMask_Mask cr)). ys ! nat (int b)
        = \<lparr>l2cache_size = sint (CacheSize cr div 1024),
           shared_with_core_number = int (length (mask_bits (GroupMask_Mask cr)))\<rparr>"
    and k: "\<forall>i < length xs. (\<forall>b \<in> set (mask_bits (GroupMask_Mask cr)). nat (int b) \<noteq> i)
        \<longrightarrow> ys ! i = xs ! i"
    by blast
  have c: "count_bits (GroupMask_Mask cr) = int (length (mask_bits (GroupMask_Mask cr)))"
    by (simp add: count_bits_eq mask_bits_def)
  have "ys ! i = xs ! i" if "i < length xs" "i \<notin> set (mask_bits (GroupMask_Mask cr))" for i
    using k that by auto
  then show ?thesis
    using r l m by (auto simp: assign_mask_level2 [OF assms(1)] c)
qed

lemma four_slots:
  assumes "length ys = 4" "ys ! 0 = a" "ys ! 1 = b" "ys ! 2 = c" "ys ! 3 = d"
  shows "ys = [a, b, c, d]"
proof (rule nth_equalityI)
  show "length ys = length [a, b, c, d]" using assms by simp
next
  fix i assume "i < length ys"
  then consider "i = 0" | "i = 1" | "i = 2" | "i = 3" using assms(1) by linarith
  then show "ys ! i = [a, b, c, d] ! i" using assms by cases simp_all
qed

lemma read_example_conv:
  "map_of files path = Some s \<Longrightarrow> s \<noteq> [] \<Longrightarrow>
   read_with conv (linux_example n files dirs) k path buf
     = Some (conv (fgets k s), Some (fgets k s))"
  by (simp add: read_with_def linux_example_def fgets_into_def)

lemma cache_lookup:
  "map_of cache_files (cache_dir 0 @ ''/level'') = Some (''1'' @ newline)"
  "map_of cache_files (cache_dir 0 @ ''/size'') = Some (''32K'' @ newline)"
  "map_of cache_files (cache_dir 0 @ ''/shared_cpu_list'') = Some (''0-1'' @ newline)"
  "map_of cache_files (cache_dir 1 @ ''/level'') = Some (''2'' @ newline)"
  "map_of cache_files (cache_dir 1 @ ''/size'') = Some (''256K'' @ newline)"
  "map_of cache_files (cache_dir 1 @ ''/shared_cpu_list'') = Some (''0-1'' @ newline)"
  "map_of cache_files (cache_dir 2 @ ''/level'') = Some (''3'' @ newline)"
  "map_of cache_files (cache_dir 2 @ ''/size'') = Some (''8M'' @ newline)"
  "map_of cache_files (cache_dir 2 @ ''/shared_cpu_list'') = Some (''0-3'' @ newline)"
  by (simp_all add: cache_files_def cache_dir_def dec.simps)

lemma cache_values:
  "atoi (fgets 64 (''1'' @ newline)) = 1" "atoi (fgets 64 (''2'' @ newline)) = 2"
  "atoi (fgets 64 (''3'' @ newline)) = 3"
  "parse_sizeKB (fgets 64 (''32K'' @ newline)) = 32"
  "parse_sizeKB (fgets 64 (''256K'' @ newline)) = 256"
  "parse_sizeKB (fgets 64 (''8M'' @ newline)) = 8192"
  "parse_shared_cpu_list True (fgets 64 (''0-1'' @ newline)) = Some [0, 1]"
  "parse_shared_cpu_list True (fgets 64 (''0-3'' @ newline)) = Some [0, 1, 2, 3]"
  by code_simp+

lemma cache_example_level:
  "read_with atoi (linux_example 4 cache_files cache_dirs) 64 (cache_dir 0 @ ''/level'') None
     = Some (1, Some (fgets 64 (''1'' @ newline)))"
  "read_with atoi (linux_example 4 cache_files cache_dirs) 64 (cache_dir 1 @ ''/level'') None
     = Some (2, Some (fgets 64 (''2'' @ newline)))"
  "read_with atoi (linux_example 4 cache_files cache_dirs) 64 (cache_dir 2 @ ''/level'') None
     = Some (3, Some (fgets 64 (''3'' @ newline)))"
  by (simp_all only: read_example_conv [OF cache_lookup(1) newline_nonempty]
        read_example_conv [OF cache_lookup(4) newline_nonempty]
        read_example_conv [OF cache_lookup(7) newline_nonempty] cache_values)

lemma cache_example_size:
  "read_with parse_sizeKB (linux_example 4 cache_files cache_dirs) 64 (cache_dir 0 @ ''/size'') b
     = Some (32, Some (fgets 64 (''32K'' @ newline)))"
  "read_with parse_sizeKB (linux_example 4 cache_files cache_dirs) 64 (cache_dir 1 @ ''/size'') b
     = Some (256, Some (fgets 64 (''256K'' @ newline)))"
  "read_with parse_sizeKB (linux_example 4 cache_files cache_dirs) 64 (cache_dir 2 @ ''/size'') b
     = Some (8192, Some (fgets 64 (''8M'' @ newline)))"
  by (simp_all only: read_example_conv [OF cache_lookup(2) newline_nonempty]
        read_example_conv [OF cache_lookup(5) newline_nonempty]
        read_example_conv [OF cache_lookup(8) newline_nonempty] cache_values)

lemma shared_cpus_example:
  assumes "map_of files (cache_dir idx @ ''/shared_cpu_list'') = Some (t @ newline)"
  shows "shared_cpus (linux_example n files dirs) idx
     = parse_shared_cpu_list True (fgets 64 (t @ newline))"
  using assms newline_nonempty [of t]
  by (simp only: shared_cpus_def linux_example_def platform.simps option.case if_False)

lemma cache_example_shared:
  "shared_cpus (linux_example 4 cache_files cache_dirs) 0 = Some [0, 1]"
  "shared_cpus (linux_example 4 cache_files cache_dirs) 1 = Some [0, 1]"
  "shared_cpus (linux_example 4 cache_files cache_dirs) 2 = Some [0, 1, 2, 3]"
  by (simp_all only: shared_cpus_example [OF cache_lookup(3)] shared_cpus_example [OF cache_lookup(6)]
        shared_cpus_example [OF cache_lookup(9)] cache_values)

lemma cache_index_body_reads:
  assumes "read_with atoi env 64 (cache_dir idx @ ''/level'') None = Some (level, buf)"
    "read_with parse_sizeKB env 64 (cache_dir idx @ ''/size'') buf = Some (sizeKB, buf')"
    "shared_cpus env idx = Some cpus" "length cpus \<le> 256"
  shows "cache_index_body env idx data = assign_cpus level sizeKB cpus data"
  using assms by (simp add: cache_index_body_def shared_cpus_def Let_def)

lemma cache_example_bodies:
  "cache_index_body (linux_example 4 cache_files cache_dirs) 0 (cache_example\<lparr>l3size := 0\<rparr>)
     = Some (cache_example\<lparr>l1size := Some [32, 32, 0, 0], l3size := 0\<rparr>)"
  "cache_index_body (linux_example 4 cache_files cache_dirs) 1
       (cache_example\<lparr>l1size := Some [32, 32, 0, 0], l3size := 0\<rparr>)
     = Some (cache_example\<lparr>l1size := Some [32, 32, 0, 0],
                            l2size := Some [l2_256, l2_256, l2_zero, l2_zero], l3size := 0\<rparr>)"
  "cache_index_body (linux_example 4 cache_files cache_dirs) 2
       (cache_example\<lparr>l1size := Some [32, 32, 0, 0],
                      l2size := Some [l2_256, l2_256, l2_zero, l2_zero], l3size := 0\<rparr>)
     = Some cache_example_result"
proof -
  show "cache_index_body (linux_example 4 cache_files cache_dirs) 0 (cache_example\<lparr>l3size := 0\<rparr>)
     = Some (cache_example\<lparr>l1size := Some [32, 32, 0, 0], l3size := 0\<rparr>)"
    by (subst cache_index_body_reads [OF cache_example_level(1) cache_example_size(1)
          cache_example_shared(1)])
      (simp_all add: assign_cpus_def set_l1size_def store_def cache_example_def)
  show "cache_index_body (linux_example 4 cache_files cache_dirs) 1
       (cache_example\<lparr>l1size := Some [32, 32, 0, 0], l3size := 0\<rparr>)
     = Some (cache_example\<lparr>l1size := Some [32, 32, 0, 0],
                            l2size := Some [l2_256, l2_256, l2_zero, l2_zero], l3size := 0\<rparr>)"
    by (subst cache_index_body_reads [OF cache_example_level(2) cache_example_size(2)
          cache_example_shared(2)])
      (simp_all add: assign_cpus_def set_l2size_def store_def cache_example_def l2_256_def)
  show "cache_index_body (linux_example 4 cache_files cache_dirs) 2
       (cache_example\<lparr>l1size := Some [32, 32, 0, 0],
                      l2size := Some [l2_256, l2_256, l2_zero, l2_zero], l3size := 0\<rparr>)
     = Some cache_example_result"
    by (subst cache_index_body_reads [OF cache_example_level(3) cache_example_size(3)
          cache_example_shared(3)])
      (simp_all add: assign_cpus_def cache_example_def cache_example_result_def)
qed

lemma cache_example_stat:
  "stat_ok (linux_example 4 cache_files cache_dirs) (cache_dir 0)"
  "stat_ok (linux_example 4 cache_files cache_dirs) (cache_dir 1)"
  "stat_ok (linux_example 4 cache_files cache_dirs) (cache_dir 2)"
  "\<not> stat_ok (linux_example 4 cache_files cache_dirs) (cache_dir 3)"
  by (simp_all add: linux_example_def cache_dirs_def cache_dir_def dec.simps)

lemma cache_example_loop:
  "cache_loop (linux_example 4 cache_files cache_dirs) 4 0 (cache_example\<lparr>l3size := 0\<rparr>)
     = Some cache_example_result"
proof -
  have c3: "cache_loop (linux_example 4 cache_files cache_dirs) 4 3 d = Some d" for d
    by (subst cache_loop.simps) (simp add: cache_example_stat)
  have c2: "cache_loop (linux_example 4 cache_files cache_dirs) 4 2
       (cache_example\<lparr>l1size := Some [32, 32, 0, 0],
                      l2size := Some [l2_256, l2_256, l2_zero, l2_zero], l3size := 0\<rparr>)
     = Some cache_example_result"
    by (subst cache_loop.simps) (simp add: cache_example_stat cache_example_bodies c3)
  have c2': "cache_loop (linux_example 4 cache_files cache_dirs) 4 (Suc (Suc 0))
       (cache_example\<lparr>l1size := Some [32, 32, 0, 0],
                      l2size := Some [l2_256, l2_256, l2_zero, l2_zero], l3size := 0\<rparr>)
     = Some cache_example_result"
    using c2 by (simp only: numeral_2_eq_2)
  have c1: "cache_loop (linux_example 4 cache_files cache_dirs) 4 (Suc 0)
       (cache_example\<lparr>l1size := Some [32, 32, 0, 0], l3size := 0\<rparr>)
     = Some cache_example_result"
    using cache_example_stat(2) cache_example_bodies(2)
    by (subst cache_loop.simps) (simp add: c2')
  show ?thesis
    by (subst cache_loop.simps) (simp add: cache_example_stat cache_example_bodies c1)
qed

lemma cache_example_no_freq:
  assumes "c < 4"
  shows "fopen (linux_example 4 cache_files cache_dirs) (path_freq c) = None"
proof -
  from assms consider "c = 0" | "c = 1" | "c = 2" | "c = 3" by linarith
  then show ?thesis
    by cases
      (simp_all add: linux_example_def cache_files_def cache_dir_def path_freq_def dec.simps)
qed

lemma cache_example_run:
  "populate_caches_and_freq (linux_example 4 cache_files cache_dirs) cache_example
     = Some cache_example_result"
proof -
  have u: "[0..<4] = [0, 1, 2, 3]" by (simp add: upt_conv_Cons)
  have l: "nat (logical_core_count cache_example) = 4" by (simp add: cache_example_def)
  have z: "for_loop [0..<4] zero_body cache_example = Some cache_example"
    by (simp add: u zero_body_def set_l1size_def set_l2size_def set_frequency_def store_def
          cache_example_def l2_zero_def)
  have "freq_body (linux_example 4 cache_files cache_dirs) c d = Some d" if "c < 4" for c d
    using cache_example_no_freq [OF that] by (simp add: freq_body_def)
  then have f: "for_loop [0..<4] (freq_body (linux_example 4 cache_files cache_dirs))
      (cache_example\<lparr>l3size := 0\<rparr>) = Some (cache_example\<lparr>l3size := 0\<rparr>)"
    by (simp add: u)
  show ?thesis
    by (simp only: populate_caches_and_freq_def Let_def l z bind.simps f cache_example_loop)
qed

text \<open>
  C3, as amended. An L2 cache instance is assigned to slots of \<open>l2size\<close> without a bounds
  check, so the statement is for instances whose slots all lie in the array. On Linux, for the
  assignment loop and for a whole cache index directory whose level reads 2, the loop completes,
  every logical CPU of the parsed shared-CPU list gets the size of the instance and, as
  \<open>shared_with_core_number\<close>, the length of the list, and the other slots are left as they
  were; with a listed CPU outside the array the run is undefined. On Windows the slots written
  for a record of level 2 are the set bit positions of its mask, which is relative to the
  processor group of the record: each gets the size and the number of set bits. These slots are
  the logical cores of the sharing set when the record belongs to group 0.
\<close>

theorem l2_sharing:
  "(l2size data = Some xs \<and> (\<forall>c \<in> set cpus. 0 \<le> c \<and> c < int (length xs)) \<longrightarrow>
      (\<exists>ys. assign_cpus 2 sizeKB cpus data = Some (data\<lparr>l2size := Some ys\<rparr>) \<and>
         length ys = length xs \<and>
         (\<forall>c \<in> set cpus. ys ! nat c
            = \<lparr>l2cache_size = sizeKB, shared_with_core_number = int (length cpus)\<rparr>) \<and>
         (\<forall>i < length xs. int i \<notin> set cpus \<longrightarrow> ys ! i = xs ! i))) \<and>
   (l2size data = Some xs \<and> (\<exists>c \<in> set cpus. \<not> (0 \<le> c \<and> c < int (length xs))) \<longrightarrow>
      assign_cpus 2 sizeKB cpus data = None) \<and>
   (read_with atoi env 64 (cache_dir idx @ ''/level'') None = Some (2, buf) \<and>
    read_with parse_sizeKB env 64 (cache_dir idx @ ''/size'') buf = Some (size_i, buf') \<and>
    shared_cpus env idx = Some cpus_i \<and> length cpus_i \<le> 256 \<and>
    l2size ldata = Some lxs \<and> (\<forall>c \<in> set cpus_i. 0 \<le> c \<and> c < int (length lxs)) \<longrightarrow>
      (\<exists>ys. cache_index_body env idx ldata = Some (ldata\<lparr>l2size := Some ys\<rparr>) \<and>
         length ys = length lxs \<and>
         (\<forall>c \<in> set cpus_i. ys ! nat c
            = \<lparr>l2cache_size = size_i, shared_with_core_number = int (length cpus_i)\<rparr>) \<and>
         (\<forall>i < length lxs. int i \<notin> set cpus_i \<longrightarrow> ys ! i = lxs ! i))) \<and>
   (Level cr = 2 \<and> l2size wdata = Some wxs \<and>
    (\<forall>b \<in> set (mask_bits (GroupMask_Mask cr)). b < length wxs) \<longrightarrow>
      (\<exists>ys. assign_mask cr wdata = Some (wdata\<lparr>l2size := Some ys\<rparr>) \<and>
         length ys = length wxs \<and>
         (\<forall>b \<in> set (mask_bits (GroupMask_Mask cr)). ys ! b
            = \<lparr>l2cache_size = sint (CacheSize cr div 1024),
               shared_with_core_number = count_bits (GroupMask_Mask cr)\<rparr>) \<and>
         count_bits (GroupMask_Mask cr) = int (length (mask_bits (GroupMask_Mask cr))) \<and>
         (\<forall>i < length wxs. i \<notin> set (mask_bits (GroupMask_Mask cr)) \<longrightarrow> ys ! i = wxs ! i)))"
proof (intro conjI impI)
  assume "l2size data = Some xs \<and> (\<forall>c \<in> set cpus. 0 \<le> c \<and> c < int (length xs))"
  then show "\<exists>ys. assign_cpus 2 sizeKB cpus data = Some (data\<lparr>l2size := Some ys\<rparr>) \<and>
         length ys = length xs \<and>
         (\<forall>c \<in> set cpus. ys ! nat c
            = \<lparr>l2cache_size = sizeKB, shared_with_core_number = int (length cpus)\<rparr>) \<and>
         (\<forall>i < length xs. int i \<notin> set cpus \<longrightarrow> ys ! i = xs ! i)"
    by (intro assign_cpus_total) simp_all
next
  assume a: "l2size data = Some xs \<and> (\<exists>c \<in> set cpus. \<not> (0 \<le> c \<and> c < int (length xs)))"
  then obtain c where c: "c \<in> set cpus" "\<not> (0 \<le> c \<and> c < int (length xs))" by blast
  then have "\<not> (0 \<le> c \<and> nat c < length xs)" by linarith
  with c have "\<exists>c \<in> set cpus. \<not> (0 \<le> c \<and> nat c < length xs)" by blast
  with a have "for_loop cpus
         (\<lambda>c d. set_l2size c \<lparr>l2cache_size = sizeKB, shared_with_core_number = int (length cpus)\<rparr> d)
         data = None"
    by (intro l2_loop_fail [where g = "\<lambda>c. c" and xs = xs]) simp_all
  then show "assign_cpus 2 sizeKB cpus data = None" by (simp only: assign_cpus_level2)
next
  assume a: "read_with atoi env 64 (cache_dir idx @ ''/level'') None = Some (2, buf) \<and>
    read_with parse_sizeKB env 64 (cache_dir idx @ ''/size'') buf = Some (size_i, buf') \<and>
    shared_cpus env idx = Some cpus_i \<and> length cpus_i \<le> 256 \<and>
    l2size ldata = Some lxs \<and> (\<forall>c \<in> set cpus_i. 0 \<le> c \<and> c < int (length lxs))"
  then have "cache_index_body env idx ldata = assign_cpus 2 size_i cpus_i ldata"
    by (intro cache_index_body_level2 [of env idx buf size_i buf']) simp_all
  moreover have "\<exists>ys. assign_cpus 2 size_i cpus_i ldata = Some (ldata\<lparr>l2size := Some ys\<rparr>) \<and>
         length ys = length lxs \<and>
         (\<forall>c \<in> set cpus_i. ys ! nat c
            = \<lparr>l2cache_size = size_i, shared_with_core_number = int (length cpus_i)\<rparr>) \<and>
         (\<forall>i < length lxs. int i \<notin> set cpus_i \<longrightarrow> ys ! i = lxs ! i)"
    using a by (intro assign_cpus_total) simp_all
  ultimately show "\<exists>ys. cache_index_body env idx ldata = Some (ldata\<lparr>l2size := Some ys\<rparr>) \<and>
         length ys = length lxs \<and>
         (\<forall>c \<in> set cpus_i. ys ! nat c
            = \<lparr>l2cache_size = size_i, shared_with_core_number = int (length cpus_i)\<rparr>) \<and>
         (\<forall>i < length lxs. int i \<notin> set cpus_i \<longrightarrow> ys ! i = lxs ! i)"
    by (simp only:)
next
  assume a: "Level cr = 2 \<and> l2size wdata = Some wxs \<and>
    (\<forall>b \<in> set (mask_bits (GroupMask_Mask cr)). b < length wxs)"
  have c: "count_bits (GroupMask_Mask cr) = int (length (mask_bits (GroupMask_Mask cr)))"
    by (rule count_bits_eq)
  from a have "\<exists>ys. assign_mask cr wdata = Some (wdata\<lparr>l2size := Some ys\<rparr>) \<and>
     length ys = length wxs \<and>
     (\<forall>b \<in> set (mask_bits (GroupMask_Mask cr)). ys ! b
        = \<lparr>l2cache_size = sint (CacheSize cr div 1024),
           shared_with_core_number = count_bits (GroupMask_Mask cr)\<rparr>) \<and>
     (\<forall>i < length wxs. i \<notin> set (mask_bits (GroupMask_Mask cr)) \<longrightarrow> ys ! i = wxs ! i)"
    by (intro assign_mask_total) simp_all
  then show "\<exists>ys. assign_mask cr wdata = Some (wdata\<lparr>l2size := Some ys\<rparr>) \<and>
         length ys = length wxs \<and>
         (\<forall>b \<in> set (mask_bits (GroupMask_Mask cr)). ys ! b
            = \<lparr>l2cache_size = sint (CacheSize cr div 1024),
               shared_with_core_number = count_bits (GroupMask_Mask cr)\<rparr>) \<and>
         count_bits (GroupMask_Mask cr) = int (length (mask_bits (GroupMask_Mask cr))) \<and>
         (\<forall>i < length wxs. i \<notin> set (mask_bits (GroupMask_Mask cr)) \<longrightarrow> ys ! i = wxs ! i)"
    using c by blast
qed

theorem l2_sharing_witness:
  "cache_index_body (linux_example 4 cache_files cache_dirs) 1 cache_example
     = Some (cache_example\<lparr>l2size := Some [l2_256, l2_256, l2_zero, l2_zero]\<rparr>) \<and>
   shared_cpus (linux_example 4 cache_files cache_dirs) 1 = Some [0, 1] \<and>
   assign_cpus 2 256 [0, 1] l2_example = Some l2_example_result \<and>
   assign_cpus 2 256 [0, 4] l2_example = None \<and>
   assign_mask cache_record_example l2_example = Some l2_example_result \<and>
   l2_of l2_example_result = [l2_256, l2_256, l2_zero, l2_zero] \<and>
   l2cache_size l2_256 = 256 \<and> shared_with_core_number l2_256 = 2 \<and>
   populate_caches_and_freq (linux_example 4 cache_files cache_dirs) cache_example
     = Some cache_example_result \<and>
   l2_of cache_example_result = [l2_256, l2_256, l2_zero, l2_zero] \<and>
   l3size cache_example_result = 8192"
proof -
  have x: "l2size cache_example = Some [l2_zero, l2_zero, l2_zero, l2_zero]"
    "l2size l2_example = Some [l2_zero, l2_zero, l2_zero, l2_zero]"
    by (simp_all add: cache_example_def l2_example_def)
  have m: "mask_bits (GroupMask_Mask cache_record_example) = [0, 1]"
    "Level cache_record_example = 2" "sint (CacheSize cache_record_example div 1024) = 256"
    by (simp_all add: cache_record_example_def mask_bits_3)
  have "\<exists>ys. cache_index_body (linux_example 4 cache_files cache_dirs) 1 cache_example
        = Some (cache_example\<lparr>l2size := Some ys\<rparr>) \<and>
      length ys = length [l2_zero, l2_zero, l2_zero, l2_zero] \<and>
      (\<forall>c \<in> set [0, 1]. ys ! nat c
         = \<lparr>l2cache_size = 256, shared_with_core_number = int (length [0, 1 :: int])\<rparr>) \<and>
      (\<forall>i < length [l2_zero, l2_zero, l2_zero, l2_zero]. int i \<notin> set [0, 1] \<longrightarrow>
         ys ! i = [l2_zero, l2_zero, l2_zero, l2_zero] ! i)"
    by (rule l2_sharing [where env = "linux_example 4 cache_files cache_dirs" and idx = 1
          and buf = "Some (fgets 64 (''2'' @ newline))" and size_i = 256
          and buf' = "Some (fgets 64 (''256K'' @ newline))" and cpus_i = "[0, 1]"
          and ldata = cache_example and lxs = "[l2_zero, l2_zero, l2_zero, l2_zero]",
          THEN conjunct2, THEN conjunct2, THEN conjunct1, THEN mp])
      (use cache_example_level(2) cache_example_size(2) cache_example_shared(2) x(1) in simp)
  then obtain ys where
    "cache_index_body (linux_example 4 cache_files cache_dirs) 1 cache_example
        = Some (cache_example\<lparr>l2size := Some ys\<rparr>)"
    "length ys = 4" "ys ! 0 = l2_256" "ys ! 1 = l2_256" "ys ! 2 = l2_zero" "ys ! 3 = l2_zero"
    by (auto simp: l2_256_def)
  then have lin: "cache_index_body (linux_example 4 cache_files cache_dirs) 1 cache_example
     = Some (cache_example\<lparr>l2size := Some [l2_256, l2_256, l2_zero, l2_zero]\<rparr>)"
    using four_slots [of ys l2_256 l2_256 l2_zero l2_zero] by simp
  have "\<exists>ys. assign_cpus 2 256 [0, 1] l2_example = Some (l2_example\<lparr>l2size := Some ys\<rparr>) \<and>
      length ys = length [l2_zero, l2_zero, l2_zero, l2_zero] \<and>
      (\<forall>c \<in> set [0, 1]. ys ! nat c
         = \<lparr>l2cache_size = 256, shared_with_core_number = int (length [0, 1 :: int])\<rparr>) \<and>
      (\<forall>i < length [l2_zero, l2_zero, l2_zero, l2_zero]. int i \<notin> set [0, 1] \<longrightarrow>
         ys ! i = [l2_zero, l2_zero, l2_zero, l2_zero] ! i)"
    by (rule l2_sharing [where data = l2_example and xs = "[l2_zero, l2_zero, l2_zero, l2_zero]"
          and cpus = "[0, 1]" and sizeKB = 256, THEN conjunct1, THEN mp])
      (simp add: x(2))
  then obtain ys where
    "assign_cpus 2 256 [0, 1] l2_example = Some (l2_example\<lparr>l2size := Some ys\<rparr>)"
    "length ys = 4" "ys ! 0 = l2_256" "ys ! 1 = l2_256" "ys ! 2 = l2_zero" "ys ! 3 = l2_zero"
    by (auto simp: l2_256_def)
  then have loop: "assign_cpus 2 256 [0, 1] l2_example = Some l2_example_result"
    using four_slots [of ys l2_256 l2_256 l2_zero l2_zero] by (simp add: l2_example_result_def)
  have fail: "assign_cpus 2 256 [0, 4] l2_example = None"
    by (rule l2_sharing [where data = l2_example and xs = "[l2_zero, l2_zero, l2_zero, l2_zero]"
          and cpus = "[0, 4]" and sizeKB = 256, THEN conjunct2, THEN conjunct1, THEN mp])
      (simp add: x(2))
  have "\<exists>ys. assign_mask cache_record_example l2_example = Some (l2_example\<lparr>l2size := Some ys\<rparr>) \<and>
      length ys = length [l2_zero, l2_zero, l2_zero, l2_zero] \<and>
      (\<forall>b \<in> set (mask_bits (GroupMask_Mask cache_record_example)). ys ! b
         = \<lparr>l2cache_size = sint (CacheSize cache_record_example div 1024),
            shared_with_core_number = count_bits (GroupMask_Mask cache_record_example)\<rparr>) \<and>
      count_bits (GroupMask_Mask cache_record_example)
        = int (length (mask_bits (GroupMask_Mask cache_record_example))) \<and>
      (\<forall>i < length [l2_zero, l2_zero, l2_zero, l2_zero].
         i \<notin> set (mask_bits (GroupMask_Mask cache_record_example)) \<longrightarrow>
         ys ! i = [l2_zero, l2_zero, l2_zero, l2_zero] ! i)"
    by (rule l2_sharing [where cr = cache_record_example and wdata = l2_example
          and wxs = "[l2_zero, l2_zero, l2_zero, l2_zero]",
          THEN conjunct2, THEN conjunct2, THEN conjunct2, THEN mp])
      (simp add: x(2) m)
  then obtain ys where
    "assign_mask cache_record_example l2_example = Some (l2_example\<lparr>l2size := Some ys\<rparr>)"
    "length ys = 4" "ys ! 0 = l2_256" "ys ! 1 = l2_256" "ys ! 2 = l2_zero" "ys ! 3 = l2_zero"
    by (auto simp: l2_256_def m)
  then have win: "assign_mask cache_record_example l2_example = Some l2_example_result"
    using four_slots [of ys l2_256 l2_256 l2_zero l2_zero] by (simp add: l2_example_result_def)
  have r: "l2_of l2_example_result = [l2_256, l2_256, l2_zero, l2_zero]"
    "l2_of cache_example_result = [l2_256, l2_256, l2_zero, l2_zero]"
    "l3size cache_example_result = 8192"
    "l2cache_size l2_256 = 256" "shared_with_core_number l2_256 = 2"
    by (simp_all add: l2_example_result_def cache_example_result_def l2_of_def l2_256_def)
  show ?thesis
    by (simp only: lin loop fail win r cache_example_run cache_example_shared simp_thms)
qed

text \<open>
  The claim as first stated fails on Windows: with two processor groups the mask of an L2
  record of group 1 is relative to that group, and the code writes it to the slots of the
  logical cores 0 and 1 of group 0. After the two records the slots 0 and 1 hold the size of the
  cache of group 1, not that of their own cache, and the slots 2 and 3 have never been assigned.
\<close>

theorem l2_sharing_counterexample:
  "GroupMask_Group group0_l2 = 0 \<and> GroupMask_Group group1_l2 = 1 \<and>
   sint (CacheSize group0_l2 div 1024) = 256 \<and> sint (CacheSize group1_l2 div 1024) = 512 \<and>
   logical_core_count l2_example = 4 \<and>
   cache_records [group0_l2, group1_l2] l2_example = Some two_groups_l2_result \<and>
   l2_of two_groups_l2_result = [l2_512, l2_512, l2_zero, l2_zero] \<and>
   l2cache_size (l2_of two_groups_l2_result ! 0) = 512 \<and>
   l2cache_size (l2_of two_groups_l2_result ! 2) = 0 \<and>
   shared_with_core_number (l2_of two_groups_l2_result ! 3) = 0"
proof -
  have v: "sint (CacheSize group0_l2 div 1024) = 256" "sint (CacheSize group1_l2 div 1024) = 512"
    "mask_bits (GroupMask_Mask group0_l2) = [0, 1]" "mask_bits (GroupMask_Mask group1_l2) = [0, 1]"
    "Level group0_l2 = 2" "Level group1_l2 = 2"
    by (simp_all add: group0_l2_def group1_l2_def mask_bits_3)
  have a: "assign_mask group0_l2 l2_example = Some l2_example_result"
    by (simp add: assign_mask_level2 [OF v(5)] v set_l2size_def store_def l2_example_def
          l2_example_result_def l2_256_def)
  have b: "assign_mask group1_l2 l2_example_result = Some two_groups_l2_result"
    by (simp add: assign_mask_level2 [OF v(6)] v set_l2size_def store_def l2_example_def
          l2_example_result_def two_groups_l2_result_def l2_512_def)
  have "cache_records [group0_l2, group1_l2] l2_example = Some two_groups_l2_result"
    by (simp add: cache_records_def a b)
  then show ?thesis
    using v
    by (simp add: group0_l2_def group1_l2_def l2_example_def two_groups_l2_result_def l2_of_def
          l2_512_def l2_zero_def)
qed

section \<open>Properties: frequency (Linux)\<close>

lemma sdiv_nat: "int n sdiv 1000 = int (n div 1000)"
  by (simp add: signed_divide_int_def zdiv_int sgn_if)

lemma sdiv_examples: "(2400999 :: int) sdiv 1000 = 2400" "(- 1500 :: int) sdiv 1000 = - 1"
  by (simp_all add: signed_divide_int_def)

lemma dec_length: "0 < k \<Longrightarrow> n < 10 ^ k \<Longrightarrow> length (dec n) \<le> k"
proof (induction k arbitrary: n)
  case 0
  then show ?case by simp
next
  case (Suc k)
  show ?case
  proof (cases "n < 10")
    case True
    then show ?thesis by (simp add: dec.simps [of n])
  next
    case False
    then have k: "0 < k" using Suc.prems by (cases k) simp_all
    have "n div 10 < 10 ^ k" using Suc.prems by (simp add: less_mult_imp_div_less mult.commute)
    then have "length (dec (n div 10)) \<le> k" using k by (rule Suc.IH [rotated])
    then show ?thesis using False by (simp add: dec.simps [of n])
  qed
qed

lemma line_of_plain: "CHR 0x0A \<notin> set xs \<Longrightarrow> line_of xs = xs"
  by (induction xs) auto

lemma line_of_newline: "CHR 0x0A \<notin> set xs \<Longrightarrow> line_of (xs @ CHR 0x0A # r) = xs @ [CHR 0x0A]"
  by (induction xs) auto

lemma dec_no_newline: "CHR 0x0A \<notin> set (dec n)"
proof
  assume "CHR 0x0A \<in> set (dec n)"
  then have "isdigit_c (CHR 0x0A)" by (rule dec_digits)
  then show False by (simp add: isdigit_c_def)
qed

lemma atoi_kHz:
  assumes "n < 2 ^ 31" "t = [] \<or> t = newline"
  shows "atoi (fgets 32 (dec n @ t)) = int n"
proof -
  have "(2::nat) ^ 31 < 10 ^ 10" by simp
  with assms(1) have "n < 10 ^ 10" by linarith
  then have l: "length (dec n) \<le> 10" by (intro dec_length) simp_all
  have "line_of (dec n @ t) = dec n @ t"
    using assms(2) line_of_plain [OF dec_no_newline, of n]
      line_of_newline [OF dec_no_newline, of n "[]"]
    by (auto simp: newline_def)
  then have "fgets 32 (dec n @ t) = dec n @ t"
    using l assms(2) by (auto simp: fgets_def newline_def)
  moreover have "stops t" using assms(2) by (auto simp: stops_simps newline_def)
  ultimately show ?thesis using assms(1) by (simp add: atoi_dec)
qed


lemma for_loop_preserves:
  assumes "\<And>x s s'. body x s = Some s' \<Longrightarrow> f s' = f s"
    and "for_loop xs body s = Some s'"
  shows "f s' = f s"
  using assms(2)
proof (induction xs arbitrary: s)
  case Nil
  then show ?case by simp
next
  case (Cons x xs)
  then obtain s1 where "body x s = Some s1" "for_loop xs body s1 = Some s'"
    by (auto split: option.splits)
  then show ?case using Cons.IH [of s1] assms(1) [of x s s1] by simp
qed

lemma set_l1size_frequency: "set_l1size i v d = Some d' \<Longrightarrow> frequency d' = frequency d"
  by (auto simp: set_l1size_def)

lemma set_l2size_frequency: "set_l2size i v d = Some d' \<Longrightarrow> frequency d' = frequency d"
  by (auto simp: set_l2size_def)

lemma assign_cpus_frequency:
  assumes "assign_cpus level sizeKB cpus d = Some d'"
  shows "frequency d' = frequency d"
proof (rule for_loop_preserves [where f = frequency])
  show "for_loop cpus
     (\<lambda>c data.
          if level = 1 then set_l1size c sizeKB data
          else if level = 2 then
            set_l2size c \<lparr>l2cache_size = sizeKB, shared_with_core_number = int (length cpus)\<rparr> data
          else if level = 3 then Some (data\<lparr>l3size := sizeKB\<rparr>)
          else Some data) d = Some d'"
    using assms by (simp add: assign_cpus_def)
next
  fix x s s'
  assume "(if level = 1 then set_l1size x sizeKB s
          else if level = 2 then
            set_l2size x \<lparr>l2cache_size = sizeKB, shared_with_core_number = int (length cpus)\<rparr> s
          else if level = 3 then Some (s\<lparr>l3size := sizeKB\<rparr>)
          else Some s) = Some s'"
  then show "frequency s' = frequency s"
    by (auto simp: set_l1size_frequency set_l2size_frequency split: if_splits)
qed

lemma cache_index_body_frequency:
  "cache_index_body env idx d = Some d' \<Longrightarrow> frequency d' = frequency d"
  by (auto simp: cache_index_body_def Let_def assign_cpus_frequency
      split: bind_splits if_splits prod.splits)

lemma cache_loop_frequency:
  "cache_loop env L idx d = Some d' \<Longrightarrow> frequency d' = frequency d"
proof (induction env L idx d rule: cache_loop.induct)
  case (1 env L idx data)
  show ?case
  proof (cases "idx < L \<and> stat_ok env (cache_dir idx)")
    case False
    then show ?thesis
      using "1.prems" by (auto simp: cache_loop.simps [of env L idx data] split: if_splits)
  next
    case True
    then obtain d1 where b: "cache_index_body env idx data = Some d1"
      and r: "cache_loop env L (Suc idx) d1 = Some d'"
      using "1.prems" by (auto simp: cache_loop.simps [of env L idx data] split: option.splits)
    have "frequency d' = frequency d1" using True b r by (intro "1.IH") simp_all
    then show ?thesis using cache_index_body_frequency [OF b] by simp
  qed
qed

lemma set_frequency_Some:
  assumes "set_frequency i v d = Some d'"
  shows "0 \<le> i \<and> nat i < length (freq_of d) \<and> freq_of d' = (freq_of d)[nat i := v]"
  using assms
  by (auto simp: set_frequency_def store_def freq_of_def split: option.splits if_splits)

lemma freq_body_Some:
  assumes "freq_body env cpu d = Some d'"
  shows "length (freq_of d') = length (freq_of d) \<and>
     (\<forall>i. i \<noteq> cpu \<longrightarrow> freq_of d' ! i = freq_of d ! i) \<and>
     (\<forall>s. fopen env (path_freq cpu) = Some s \<and> s \<noteq> [] \<longrightarrow>
        cpu < length (freq_of d') \<and> freq_of d' ! cpu = atoi (fgets 32 s) sdiv 1000)"
proof (cases "fopen env (path_freq cpu)")
  case None
  then show ?thesis using assms by (simp add: freq_body_def)
next
  case (Some s)
  show ?thesis
  proof (cases "s = []")
    case True
    then show ?thesis using assms Some by (simp add: freq_body_def)
  next
    case False
    then have "set_frequency (int cpu) (atoi (fgets 32 s) sdiv 1000) d = Some d'"
      using assms Some by (simp add: freq_body_def)
    from set_frequency_Some [OF this] show ?thesis using Some by auto
  qed
qed

lemma freq_loop:
  assumes "for_loop [0..<n] (freq_body env) d = Some d'"
  shows "length (freq_of d') = length (freq_of d) \<and>
     (\<forall>i. n \<le> i \<longrightarrow> freq_of d' ! i = freq_of d ! i) \<and>
     (\<forall>cpu < n. \<forall>s. fopen env (path_freq cpu) = Some s \<and> s \<noteq> [] \<longrightarrow>
        cpu < length (freq_of d') \<and> freq_of d' ! cpu = atoi (fgets 32 s) sdiv 1000)"
  using assms
proof (induction n arbitrary: d')
  case 0
  then show ?case by simp
next
  case (Suc n)
  then obtain d1 where a: "for_loop [0..<n] (freq_body env) d = Some d1"
    and b: "freq_body env n d1 = Some d'"
    by (auto simp: for_loop_snoc split: option.splits)
  note ih = Suc.IH [OF a]
  note st = freq_body_Some [OF b]
  show ?case
  proof (intro conjI allI impI)
    show "length (freq_of d') = length (freq_of d)" using ih st by simp
  next
    fix i assume "Suc n \<le> i"
    then show "freq_of d' ! i = freq_of d ! i" using ih st by simp
  next
    fix cpu s
    assume c: "cpu < Suc n" and f: "fopen env (path_freq cpu) = Some s \<and> s \<noteq> []"
    show "cpu < length (freq_of d')"
      using c f ih st by (cases "cpu = n") auto
    show "freq_of d' ! cpu = atoi (fgets 32 s) sdiv 1000"
    proof (cases "cpu = n")
      case True
      then show ?thesis using st f by blast
    next
      case False
      then have "cpu < n" using c by simp
      then have "freq_of d1 ! cpu = atoi (fgets 32 s) sdiv 1000" using ih f by blast
      then show ?thesis using st False by simp
    qed
  qed
qed

lemma populate_frequency:
  assumes "populate_caches_and_freq env data = Some data'"
    and "cpu < nat (logical_core_count data)"
    and "fopen env (path_freq cpu) = Some s" "s \<noteq> []"
  shows "cpu < length (freq_of data') \<and> freq_of data' ! cpu = atoi (fgets 32 s) sdiv 1000"
proof -
  from assms(1) obtain d1 d2 where
    z: "for_loop [0..<nat (logical_core_count data)] zero_body data = Some d1"
    and f: "for_loop [0..<nat (logical_core_count data)] (freq_body env) (d1\<lparr>l3size := 0\<rparr>) = Some d2"
    and c: "cache_loop env (nat (logical_core_count data)) 0 d2 = Some data'"
    by (auto simp: populate_caches_and_freq_def Let_def split: bind_splits)
  have e: "freq_of data' = freq_of d2"
    using cache_loop_frequency [OF c] by (simp add: freq_of_def)
  have "\<forall>cpu < nat (logical_core_count data). \<forall>s.
      fopen env (path_freq cpu) = Some s \<and> s \<noteq> [] \<longrightarrow>
        cpu < length (freq_of d2) \<and> freq_of d2 ! cpu = atoi (fgets 32 s) sdiv 1000"
    using freq_loop [OF f] by blast
  then have "cpu < length (freq_of d2) \<and> freq_of d2 ! cpu = atoi (fgets 32 s) sdiv 1000"
    using assms(2-4) by blast
  then show ?thesis by (simp only: e)
qed


lemma atoi_2400000:
  "atoi (fgets 32 (CHR ''2'' # CHR ''4'' # CHR ''0'' # CHR ''0'' # CHR ''0'' # CHR ''0'' # CHR ''0'' # newline))
     = 2400000"
  "atoi (fgets 32 ''2400000'') = 2400000"
  by code_simp+

lemma freq_example_run:
  "populate_caches_and_freq (linux_example 1 freq_files []) freq_example = Some freq_example_result"
proof -
  have u: "[0..<1] = [0]" by (simp add: upt_conv_Cons)
  have z: "for_loop [0..<1] zero_body freq_example
      = Some (freq_example\<lparr>l1size := Some [0], l2size := Some [l2_zero], frequency := Some [0]\<rparr>)"
    by (simp add: u zero_body_def set_l1size_def set_l2size_def set_frequency_def store_def
          freq_example_def l2_zero_def)
  have f: "fopen (linux_example 1 freq_files []) (path_freq 0) = Some (''2400000'' @ newline)"
    by (simp add: linux_example_def freq_files_def)
  have fl: "for_loop [0..<1] (freq_body (linux_example 1 freq_files []))
        (freq_example\<lparr>l1size := Some [0], l2size := Some [l2_zero], frequency := Some [0], l3size := 0\<rparr>)
      = Some (freq_example\<lparr>l1size := Some [0], l2size := Some [l2_zero], frequency := Some [2400],
                           l3size := 0\<rparr>)"
    using atoi_2400000(1)
    by (simp add: u freq_body_def f set_frequency_def store_def freq_example_def
          signed_divide_int_def newline_def)
  have "\<not> stat_ok (linux_example 1 freq_files []) (cache_dir 0)"
    by (simp add: linux_example_def)
  then have c: "cache_loop (linux_example 1 freq_files []) 1 0 d = Some d" for d
    by (subst cache_loop.simps) simp
  have l: "nat (logical_core_count freq_example) = 1" by (simp add: freq_example_def)
  have "populate_caches_and_freq (linux_example 1 freq_files []) freq_example
      = Some (freq_example\<lparr>l1size := Some [0], l2size := Some [l2_zero],
                           frequency := Some [2400], l3size := 0\<rparr>)"
    by (simp only: populate_caches_and_freq_def Let_def l z bind.simps fl c)
  then show ?thesis
    by (simp add: freq_example_def freq_example_result_def data_zero_def)
qed

text \<open>
  C7. On Linux, when \<open>populate_caches_and_freq\<close> completes, the frequency recorded for a
  logical core whose scaling-frequency file can be opened and is not empty is the number at the
  start of the file divided by 1000 with C's division, which truncates: for a file holding the
  decimal text of n kHz (with or without a newline) this is n div 1000, and a file holding
  \<open>2400000\<close> gives 2400.
\<close>

theorem frequency_mhz:
  "(populate_caches_and_freq env data = Some data' \<and> cpu < nat (logical_core_count data) \<and>
    fopen env (path_freq cpu) = Some s \<and> s \<noteq> [] \<longrightarrow>
      cpu < length (freq_of data') \<and> freq_of data' ! cpu = atoi (fgets 32 s) sdiv 1000) \<and>
   (n < 2 ^ 31 \<and> (t = [] \<or> t = newline) \<longrightarrow>
      atoi (fgets 32 (dec n @ t)) sdiv 1000 = int (n div 1000)) \<and>
   atoi (fgets 32 ''2400000'') sdiv 1000 = 2400 \<and>
   (2400999 :: int) sdiv 1000 = 2400 \<and> (- 1500 :: int) sdiv 1000 = - 1"
proof (intro conjI impI)
  assume "populate_caches_and_freq env data = Some data' \<and> cpu < nat (logical_core_count data) \<and>
    fopen env (path_freq cpu) = Some s \<and> s \<noteq> []"
  then have "cpu < length (freq_of data') \<and> freq_of data' ! cpu = atoi (fgets 32 s) sdiv 1000"
    using populate_frequency [of env data data' cpu s] by blast
  then show "cpu < length (freq_of data')" "freq_of data' ! cpu = atoi (fgets 32 s) sdiv 1000"
    by simp_all
next
  assume "n < 2 ^ 31 \<and> (t = [] \<or> t = newline)"
  then have "atoi (fgets 32 (dec n @ t)) = int n" by (intro atoi_kHz) simp_all
  then show "atoi (fgets 32 (dec n @ t)) sdiv 1000 = int (n div 1000)"
    by (simp only: sdiv_nat)
next
  show "atoi (fgets 32 ''2400000'') sdiv 1000 = 2400"
    by (simp only: atoi_2400000(2)) (simp add: signed_divide_int_def)
  show "(2400999 :: int) sdiv 1000 = 2400" "(- 1500 :: int) sdiv 1000 = - 1"
    by (rule sdiv_examples)+
qed

theorem frequency_mhz_witness:
  "populate_caches_and_freq (linux_example 1 freq_files []) freq_example = Some freq_example_result \<and>
   fopen (linux_example 1 freq_files []) (path_freq 0) = Some (''2400000'' @ newline) \<and>
   freq_of freq_example_result ! 0 = 2400 \<and>
   atoi (fgets 32 (dec 2400999 @ newline)) sdiv 1000 = 2400"
proof -
  have f: "fopen (linux_example 1 freq_files []) (path_freq 0) = Some (''2400000'' @ newline)"
    by (simp add: linux_example_def freq_files_def)
  have r: "freq_of freq_example_result ! 0 = 2400"
    by (simp add: freq_example_result_def freq_of_def)
  have l: "nat (logical_core_count freq_example) = 1" by (simp add: freq_example_def)
  show ?thesis
    using frequency_mhz [of "linux_example 1 freq_files []" freq_example freq_example_result 0
        "''2400000'' @ newline" 2400999 newline]
      freq_example_run f r l
    by (simp add: newline_def)
qed

section \<open>Properties: the exported entry point\<close>

lemma get_cpu_brand_rc:
  "get_cpu_brand env name
     = (if alloc_ok env Alloc_brand then (0, snd (get_cpu_brand env name)) else (203, name))"
  by (simp add: get_cpu_brand_def)

lemma get_cpu_data_early_return:
  "get_cpu_data env (Some data)
     = (if alloc_ok env Alloc_brand
        then Some (0, Some (data\<lparr>cpu_name := snd (get_cpu_brand env (cpu_name data))\<rparr>))
        else Some (203, Some data))"
proof (cases "alloc_ok env Alloc_brand")
  case True
  then have "get_cpu_brand env (cpu_name data) = (0, snd (get_cpu_brand env (cpu_name data)))"
    using get_cpu_brand_rc [of env "cpu_name data"] by simp
  then obtain name where n: "get_cpu_brand env (cpu_name data) = (0, name)" by blast
  show ?thesis using True by (simp add: get_cpu_data_def n)
next
  case False
  then have "get_cpu_brand env (cpu_name data) = (203, cpu_name data)"
    by (simp add: get_cpu_brand_def)
  then show ?thesis using False by (simp add: get_cpu_data_def)
qed

lemma brand_example:
  "snd (get_cpu_brand (linux_example n files dirs) name) = Some []"
  by (simp add: get_cpu_brand_def linux_example_def regs_zero_def regs_bytes_def word_bytes_def
        c_string_def char_of_def)

text \<open>
  C1 (the code departs from the claim). On a platform with four logical CPUs, a caller's
  zeroed record and every allocation succeeding, \<open>get_cpu_data\<close> returns 0, the documented
  success code, straight after the brand string: the test \<open>rc != 200\<close> holds for the 0 that
  \<open>get_cpu_brand\<close> returns. The logical core count is never read, no per-logical array is
  allocated, and neither the cache and frequency attribution, the feature decoding nor the
  topology reconstruction has run.
\<close>

theorem get_cpu_data_skips_population:
  "get_nprocs (linux_example 4 two_core_files []) = 4 \<and>
   alloc_ok (linux_example 4 two_core_files []) Alloc_brand \<and>
   get_cpu_data (linux_example 4 two_core_files []) (Some data_zero)
     = Some (0, Some (data_zero\<lparr>cpu_name := Some []\<rparr>)) \<and>
   logical_core_count (data_zero\<lparr>cpu_name := Some []\<rparr>) = 0 \<and>
   l1size (data_zero\<lparr>cpu_name := Some []\<rparr>) = None \<and>
   l2size (data_zero\<lparr>cpu_name := Some []\<rparr>) = None \<and>
   frequency (data_zero\<lparr>cpu_name := Some []\<rparr>) = None \<and>
   cores (data_zero\<lparr>cpu_name := Some []\<rparr>) = None \<and>
   get_core_topology (linux_example 4 two_core_files []) (data_zero\<lparr>logical_core_count := 4\<rparr>)
     = Some (0, one_group_result)"
proof -
  have "get_cpu_data (linux_example 4 two_core_files []) (Some data_zero)
     = Some (0, Some (data_zero\<lparr>cpu_name := Some []\<rparr>))"
    by (simp add: get_cpu_data_early_return brand_example) (simp add: linux_example_def)
  then show ?thesis
    using two_core_run by (simp add: linux_example_def data_zero_def)
qed

lemma zero_cores_topology:
  assumes "logical_core_count data = 0" "alloc_ok env Alloc_keys" "alloc_ok env Alloc_temp"
    "alloc_ok env Alloc_cores"
  shows "get_core_topology env data
     = Some (0, data\<lparr>physical_core_count := 0, cores := Some []\<rparr>)"
  using assms by (simp add: get_core_topology_def Let_def calloc_def)

lemma zero_cores_populate:
  assumes "logical_core_count data = 0"
  shows "populate_caches_and_freq env data = Some (data\<lparr>l3size := 0\<rparr>)"
  using assms by (simp add: populate_caches_and_freq_def Let_def cache_loop.simps)

text \<open>
  C9. When the platform reports zero logical cores, \<open>get_cpu_data\<close>, called on a zeroed record
  as the header asks and with the allocation of the brand string succeeding, returns 0, not an
  error code, and the record has zero logical and zero physical cores, no physical core and no
  element in any per-logical array (the pointers are null). On a record with zero logical cores
  the topology reconstruction returns 0 with an empty array of cores, and the cache and frequency
  attribution completes without touching a per-logical array.
\<close>

theorem zero_logical_cores:
  "(get_nprocs env = 0 \<and> alloc_ok env Alloc_brand \<longrightarrow>
      (\<exists>d. get_cpu_data env (Some data_zero) = Some (0, Some d) \<and>
         logical_core_count d = 0 \<and> physical_core_count d = 0 \<and> cores_of d = [] \<and>
         l1_of d = [] \<and> l2_of d = [] \<and> freq_of d = [])) \<and>
   (logical_core_count data = 0 \<and> alloc_ok env Alloc_keys \<and> alloc_ok env Alloc_temp \<and>
    alloc_ok env Alloc_cores \<longrightarrow>
      get_core_topology env data
        = Some (0, data\<lparr>physical_core_count := 0, cores := Some []\<rparr>)) \<and>
   (logical_core_count data = 0 \<longrightarrow>
      populate_caches_and_freq env data = Some (data\<lparr>l3size := 0\<rparr>))"
proof (intro conjI impI)
  assume "get_nprocs env = 0 \<and> alloc_ok env Alloc_brand"
  then have "get_cpu_data env (Some data_zero)
      = Some (0, Some (data_zero\<lparr>cpu_name := snd (get_cpu_brand env (cpu_name data_zero))\<rparr>))"
    by (simp add: get_cpu_data_early_return)
  moreover have "logical_core_count (data_zero\<lparr>cpu_name := n\<rparr>) = 0"
    "physical_core_count (data_zero\<lparr>cpu_name := n\<rparr>) = 0"
    "cores_of (data_zero\<lparr>cpu_name := n\<rparr>) = []" "l1_of (data_zero\<lparr>cpu_name := n\<rparr>) = []"
    "l2_of (data_zero\<lparr>cpu_name := n\<rparr>) = []" "freq_of (data_zero\<lparr>cpu_name := n\<rparr>) = []" for n
    by (simp_all add: data_zero_def cores_of_def l1_of_def l2_of_def freq_of_def)
  ultimately show "\<exists>d. get_cpu_data env (Some data_zero) = Some (0, Some d) \<and>
         logical_core_count d = 0 \<and> physical_core_count d = 0 \<and> cores_of d = [] \<and>
         l1_of d = [] \<and> l2_of d = [] \<and> freq_of d = []"
    by blast
next
  assume "logical_core_count data = 0 \<and> alloc_ok env Alloc_keys \<and> alloc_ok env Alloc_temp \<and>
    alloc_ok env Alloc_cores"
  then show "get_core_topology env data
        = Some (0, data\<lparr>physical_core_count := 0, cores := Some []\<rparr>)"
    by (intro zero_cores_topology) simp_all
next
  assume "logical_core_count data = 0"
  then show "populate_caches_and_freq env data = Some (data\<lparr>l3size := 0\<rparr>)"
    by (rule zero_cores_populate)
qed

theorem zero_logical_cores_witness:
  "get_nprocs (linux_example 0 [] []) = 0 \<and>
   get_cpu_data (linux_example 0 [] []) (Some data_zero)
     = Some (0, Some (data_zero\<lparr>cpu_name := Some []\<rparr>)) \<and>
   logical_core_count (data_zero\<lparr>cpu_name := Some []\<rparr>) = 0 \<and>
   cores_of (data_zero\<lparr>cpu_name := Some []\<rparr>) = [] \<and>
   freq_of (data_zero\<lparr>cpu_name := Some []\<rparr>) = [] \<and>
   get_core_topology (linux_example 0 [] []) data_zero = Some (0, data_zero\<lparr>cores := Some []\<rparr>) \<and>
   populate_caches_and_freq (linux_example 0 [] []) data_zero = Some data_zero"
proof -
  have r: "get_cpu_data (linux_example 0 [] []) (Some data_zero)
     = Some (0, Some (data_zero\<lparr>cpu_name := Some []\<rparr>))"
    by (simp add: get_cpu_data_early_return brand_example) (simp add: linux_example_def)
  have e: "get_nprocs (linux_example 0 [] []) = 0" "alloc_ok (linux_example 0 [] []) site" for site
    by (simp_all add: linux_example_def)
  have z: "logical_core_count data_zero = 0" "data_zero\<lparr>physical_core_count := 0\<rparr> = data_zero"
    "data_zero\<lparr>l3size := 0\<rparr> = data_zero"
    by (simp_all add: data_zero_def)
  show ?thesis
    using zero_logical_cores [of "linux_example 0 [] []" data_zero] r e z
    by auto
qed

end
